theory Spec2Isabelle
  imports Main
begin

section \<open>Errors\<close>

text \<open>
  Go error values of the package. \<open>errors.New\<close> and \<open>fmt.Errorf\<close> with one \<open>%w\<close> verb
  are constructors; \<open>ErrLockAcquiredByOthers\<close> is the package's sentinel. An error that
  comes out of the connection pool or the server is \<open>Remote\<close>, the two context errors are
  \<open>Canceled\<close> and \<open>DeadlineExceeded\<close>.
\<close>

datatype err =
    ErrLockAcquiredByOthers
  | New string
  | Errorf string "int list" err
  | Canceled
  | DeadlineExceeded
  | Remote string

text \<open>\<open>errors.Is\<close>: walk the chain of wrapped errors, comparing each link with the target.\<close>

fun errors_Is :: "err \<Rightarrow> err \<Rightarrow> bool" where
  "errors_Is (Errorf f args e) target = (Errorf f args e = target \<or> errors_Is e target)"
| "errors_Is e target = (e = target)"

definition IsRetryableErr :: "err \<Rightarrow> bool" where
  "IsRetryableErr e = errors_Is e ErrLockAcquiredByOthers"

section \<open>Integers and durations\<close>

text \<open>
  \<open>int64\<close> values are integers; where the source multiplies, the product is wrapped to
  64 bits (two's complement). A \<open>time.Duration\<close> is an \<open>int64\<close> count of nanoseconds.
\<close>

definition wrap64 :: "int \<Rightarrow> int" where
  "wrap64 x = (x + 2 ^ 63) mod 2 ^ 64 - 2 ^ 63"

definition in_int64 :: "int \<Rightarrow> bool" where
  "in_int64 x = (- (2 ^ 63) \<le> x \<and> x < 2 ^ 63)"

type_synonym Duration = int

definition Millisecond :: Duration where
  "Millisecond = 1000000"

definition Second :: Duration where
  "Second = 1000000000"

text \<open>
  \<open>int64(d.Seconds())\<close>: the duration in seconds as a float, truncated towards zero.
  The float sum of whole seconds and fraction is exact enough for the truncation to be
  the integer quotient whenever the duration is below \<open>2^23\<close> seconds.
\<close>

definition Seconds_int64 :: "Duration \<Rightarrow> int" where
  "Seconds_int64 d = (if 0 \<le> d then d div Second else - ((- d) div Second))"

section \<open>Options (options.go)\<close>

definition DefaultIdleTimeoutSeconds :: int where "DefaultIdleTimeoutSeconds = 10"
definition DefaultMaxActive :: int where "DefaultMaxActive = 100"
definition DefaultMaxIdle :: int where "DefaultMaxIdle = 20"
definition DefaultLockExpireSeconds :: int where "DefaultLockExpireSeconds = 30"
definition WatchDogWorkStepSeconds :: int where "WatchDogWorkStepSeconds = 10"

definition DefaultSingleLockTimeout :: Duration where
  "DefaultSingleLockTimeout = 50 * Millisecond"

record ClientOptions =
  maxIdle :: int
  idleTimeoutSeconds :: int
  maxActive :: int
  wait :: bool
  network :: string
  address :: string
  password :: string

datatype ClientOption =
    WithMaxIdle int
  | WithIdleTimeoutSeconds int
  | WithMaxActive int
  | WithWaitMode

fun apply_ClientOption :: "'a ClientOptions_scheme \<Rightarrow> ClientOption \<Rightarrow> 'a ClientOptions_scheme" where
  "apply_ClientOption c (WithMaxIdle n) = c\<lparr>maxIdle := n\<rparr>"
| "apply_ClientOption c (WithIdleTimeoutSeconds n) = c\<lparr>idleTimeoutSeconds := n\<rparr>"
| "apply_ClientOption c (WithMaxActive n) = c\<lparr>maxActive := n\<rparr>"
| "apply_ClientOption c WithWaitMode = c\<lparr>wait := True\<rparr>"

definition setClientArgs :: "'a ClientOptions_scheme \<Rightarrow> 'a ClientOptions_scheme" where
  "setClientArgs c =
     (let c1 = (if maxIdle c < 0 then c\<lparr>maxIdle := DefaultMaxIdle\<rparr> else c);
          c2 = (if idleTimeoutSeconds c1 < 0
                then c1\<lparr>idleTimeoutSeconds := DefaultIdleTimeoutSeconds\<rparr> else c1)
      in if maxActive c2 < 0 then c2\<lparr>maxActive := DefaultMaxActive\<rparr> else c2)"

record LockOptions =
  isBlock :: bool
  blockWaitingSeconds :: int
  expireSeconds :: int
  watchDogMode :: bool

datatype LockOption =
    WithBlock
  | WithBlockWaitingSeconds int
  | WithExpireSeconds int

fun apply_LockOption :: "'a LockOptions_scheme \<Rightarrow> LockOption \<Rightarrow> 'a LockOptions_scheme" where
  "apply_LockOption o' WithBlock = o'\<lparr>isBlock := True\<rparr>"
| "apply_LockOption o' (WithBlockWaitingSeconds n) = o'\<lparr>blockWaitingSeconds := n\<rparr>"
| "apply_LockOption o' (WithExpireSeconds n) = o'\<lparr>expireSeconds := n\<rparr>"

definition setLockOptions :: "'a LockOptions_scheme \<Rightarrow> 'a LockOptions_scheme" where
  "setLockOptions lock =
     (let lock1 = (if isBlock lock \<and> blockWaitingSeconds lock \<le> 0
                   then lock\<lparr>blockWaitingSeconds := 5\<rparr> else lock)
      in if expireSeconds lock1 > 0 then lock1
         else lock1\<lparr>expireSeconds := DefaultLockExpireSeconds, watchDogMode := True\<rparr>)"

record RedLockOptions =
  singleNodesTimeout :: Duration
  expireDuration :: Duration

datatype RedLockOption =
    WithSingleNodesTimeout Duration
  | WithRedLockExpireDuration Duration

fun apply_RedLockOption :: "'a RedLockOptions_scheme \<Rightarrow> RedLockOption \<Rightarrow> 'a RedLockOptions_scheme" where
  "apply_RedLockOption o' (WithSingleNodesTimeout d) = o'\<lparr>singleNodesTimeout := d\<rparr>"
| "apply_RedLockOption o' (WithRedLockExpireDuration d) = o'\<lparr>expireDuration := d\<rparr>"

definition setRedLockOption :: "'a RedLockOptions_scheme \<Rightarrow> 'a RedLockOptions_scheme" where
  "setRedLockOption r =
     (if singleNodesTimeout r \<le> 0 then r\<lparr>singleNodesTimeout := DefaultSingleLockTimeout\<rparr> else r)"

record SingleNodeConf =
  Network :: string
  Address :: string
  Password :: string
  Opts :: "ClientOption list"

section \<open>The client (redis.go)\<close>

text \<open>
  The connection pool a client is built with. \<open>NewClient\<close> fills a first client value
  with the options, builds the pool from it and returns a second client that holds the
  pool only: its own option fields are the zero values.
\<close>

record Pool =
  dial_network :: string
  dial_address :: string
  dial_password :: string
  MaxIdle :: int
  MaxActive :: int
  IdleTimeout :: Duration
  Wait :: bool

record Client = ClientOptions +
  pool :: Pool

definition getRedisPool :: "'a ClientOptions_scheme \<Rightarrow> Pool" where
  "getRedisPool c =
     \<lparr>dial_network = network c, dial_address = address c, dial_password = password c,
      MaxIdle = maxIdle c, MaxActive = maxActive c,
      IdleTimeout = wrap64 (idleTimeoutSeconds c * Second), Wait = wait c\<rparr>"

definition NewClient :: "string \<Rightarrow> string \<Rightarrow> string \<Rightarrow> ClientOption list \<Rightarrow> Client" where
  "NewClient nw addr pw opts =
     (let client = \<lparr>maxIdle = 0, idleTimeoutSeconds = 0, maxActive = 0, wait = False,
                     network = nw, address = addr, password = pw\<rparr>;
          client1 = setClientArgs (foldl apply_ClientOption client opts)
      in \<lparr>maxIdle = 0, idleTimeoutSeconds = 0, maxActive = 0, wait = False,
          network = [], address = [], password = [], pool = getRedisPool client1\<rparr>)"

section \<open>The store and the connection\<close>

text \<open>
  A store maps a key to its value and the expiry (seconds) it was set with. The servers
  a program talks to are addressed by network and address.
\<close>

type_synonym store = "string \<rightharpoonup> string \<times> int"

type_synonym server = "string \<times> string"

datatype script = LuaCheckAndDeleteDistributionLock | LuaCheckAndExpireDistributionLock

datatype arg = AStr string | AInt int

datatype command = SET_EX_NX string string int | EVAL script int "arg list"

datatype reply = ReplyInt64 int | ReplyString string | ReplyNil | ReplyError string

text \<open>
  Modelled from the spec: the store's execution of a command (the server and the text of
  the two Lua scripts are not part of the source). Conditional set with expiry: the key
  is written only if absent. Check-and-delete: if the stored value equals the token,
  delete the key and return 1, else return 0 with no mutation. Check-and-expire: if the
  stored value equals the token, set the expiry and return 1, else return 0.
\<close>

fun redis_exec :: "command \<Rightarrow> store \<Rightarrow> reply \<times> store" where
  "redis_exec (SET_EX_NX k v ttl) kv =
     (if kv k = None then (ReplyString ''OK'', kv(k \<mapsto> (v, ttl))) else (ReplyNil, kv))"
| "redis_exec (EVAL LuaCheckAndDeleteDistributionLock n [AStr k, AStr t]) kv =
     (case kv k of
        None \<Rightarrow> (ReplyInt64 0, kv)
      | Some (v, ttl) \<Rightarrow> if v = t then (ReplyInt64 1, kv(k := None)) else (ReplyInt64 0, kv))"
| "redis_exec (EVAL LuaCheckAndExpireDistributionLock n [AStr k, AStr t, AInt s]) kv =
     (case kv k of
        None \<Rightarrow> (ReplyInt64 0, kv)
      | Some (v, ttl) \<Rightarrow> if v = t then (ReplyInt64 1, kv(k \<mapsto> (v, s))) else (ReplyInt64 0, kv))"
| "redis_exec (EVAL sc n args) kv = (ReplyError ''ERR wrong arguments'', kv)"

text \<open>
  What the environment does to a call: the pool may fail to hand out a connection
  (the command never reaches the server), or \<open>Do\<close> may fail, before or after the
  server executed the command.
\<close>

datatype cause = CauseCanceled | CauseDeadlineExceeded | CauseRemote string

fun cause_err :: "cause \<Rightarrow> err" where
  "cause_err CauseCanceled = Canceled"
| "cause_err CauseDeadlineExceeded = DeadlineExceeded"
| "cause_err (CauseRemote s) = Remote s"

datatype fault = GetContextFails cause | DoFails cause bool

datatype other_op = OtherDel server string | OtherSet server string string int

datatype event =
    Call server command "err + reply"
  | StartDog nat
  | StopDog nat

text \<open>
  The world outside one call: the servers; what the environment will do to the coming
  client calls (\<open>faults\<close>, one entry per call, none when the list is empty); what other
  clients do between two polls of a waiting lock (\<open>others\<close>); how a \<open>select\<close> with two
  ready channels is resolved (\<open>picks\<close>); the coming measurements of
  \<open>time.Since\<close> (\<open>since\<close>); the contexts the renewal tasks were started with
  and whether each has been cancelled (\<open>dogs\<close>); and the log of effects, oldest first.
\<close>

record World =
  servers :: "server \<Rightarrow> store"
  faults :: "fault option list"
  others :: "other_op list list"
  picks :: "bool list"
  since :: "Duration list"
  dogs :: "bool list"
  log :: "event list"

definition server_of :: "Client \<Rightarrow> server" where
  "server_of c = (dial_network (pool c), dial_address (pool c))"

definition next_fault :: "World \<Rightarrow> fault option" where
  "next_fault w = (case faults w of [] \<Rightarrow> None | f # fs \<Rightarrow> f)"

definition drop_fault :: "World \<Rightarrow> World" where
  "drop_fault w = w\<lparr>faults := tl (faults w)\<rparr>"

definition reply_result :: "reply \<Rightarrow> err + reply" where
  "reply_result rep = (case rep of ReplyError s \<Rightarrow> Inl (Remote s) | _ \<Rightarrow> Inr rep)"

text \<open>\<open>pool.GetContext\<close> followed by \<open>conn.Do\<close>, as every method of the client does.\<close>

definition conn_Do :: "Client \<Rightarrow> command \<Rightarrow> World \<Rightarrow> (err + reply) \<times> World" where
  "conn_Do c cmd w =
     (let sv = server_of c;
          rep = fst (redis_exec cmd (servers w sv));
          kv = snd (redis_exec cmd (servers w sv));
          w1 = drop_fault w
      in case next_fault w of
           None \<Rightarrow>
             (reply_result rep,
              w1\<lparr>servers := (servers w)(sv := kv), log := log w @ [Call sv cmd (reply_result rep)]\<rparr>)
         | Some (GetContextFails ca) \<Rightarrow>
             (Inl (cause_err ca), w1\<lparr>log := log w @ [Call sv cmd (Inl (cause_err ca))]\<rparr>)
         | Some (DoFails ca executed) \<Rightarrow>
             (Inl (cause_err ca),
              w1\<lparr>servers := (if executed then (servers w)(sv := kv) else servers w),
                 log := log w @ [Call sv cmd (Inl (cause_err ca))]\<rparr>))"

definition to_lower_char :: "char \<Rightarrow> char" where
  "to_lower_char c =
     (if 65 \<le> (of_char c :: nat) \<and> (of_char c :: nat) \<le> 90
      then char_of ((of_char c :: nat) + 32) else c)"

definition strings_ToLower :: "string \<Rightarrow> string" where
  "strings_ToLower s = map to_lower_char s"

text \<open>The type assertion \<open>r, _ := reply.(int64)\<close>: zero unless the reply is an int64.\<close>

fun as_int64 :: "reply \<Rightarrow> int" where
  "as_int64 (ReplyInt64 n) = n"
| "as_int64 rep = 0"

definition ErrEmpty :: err where
  "ErrEmpty = New (''ERROR: redis SET keyNX or value can'' @ [CHR 0x27] @ ''t be empty'')"

text \<open>
  The methods of the client. The context they are given decides only whether the pool
  hands out a connection, which is the environment's \<open>faults\<close> here. With an error,
  \<open>Eval\<close> returns a reply no caller reads (-1 from the pool, nil from \<open>Do\<close>); it is
  nil here.
\<close>

definition SetNEX :: "Client \<Rightarrow> string \<Rightarrow> string \<Rightarrow> int \<Rightarrow> World \<Rightarrow> (int \<times> err option) \<times> World" where
  "SetNEX c key val expireSecs w =
     (if key = [] \<or> val = []
      then ((- 1, Some ErrEmpty), w)
      else case conn_Do c (SET_EX_NX key val expireSecs) w of
             (Inl e, w1) \<Rightarrow> ((- 1, Some e), w1)
           | (Inr (ReplyString s), w1) \<Rightarrow>
               (if strings_ToLower s = ''ok'' then ((1, None), w1) else ((0, None), w1))
           | (Inr rep, w1) \<Rightarrow> ((as_int64 rep, None), w1))"

definition Eval :: "Client \<Rightarrow> script \<Rightarrow> int \<Rightarrow> arg list \<Rightarrow> World \<Rightarrow> (reply \<times> err option) \<times> World" where
  "Eval c src keyCount keysAndArgs w =
     (case conn_Do c (EVAL src keyCount keysAndArgs) w of
        (Inl e, w1) \<Rightarrow> ((ReplyNil, Some e), w1)
      | (Inr rep, w1) \<Rightarrow> ((rep, None), w1))"

section \<open>The single lock (lock.go)\<close>

definition RedisLockKeyPrefix :: string where
  "RedisLockKeyPrefix = ''REDIS_LOCK_PREFIX_''"

text \<open>
  \<open>runningDog\<close> is the guard of the renewal task; \<open>stopDog\<close> is the cancel function
  of the context the last renewal task was started with (an index into \<open>dogs\<close>),
  \<open>None\<close> for the nil function.
\<close>

record RedisLock = LockOptions +
  key :: string
  token :: string
  client :: Client
  runningDog :: int
  stopDog :: "nat option"

text \<open>
  The caller's context, as far as the lock reads it: the first poll of a waiting lock at
  which \<open>ctx.Done()\<close> is ready (\<open>None\<close> when the context is never cancelled), and
  what \<open>ctx.Err()\<close> is then.
\<close>

datatype ctx_cause = CtxCanceled | CtxDeadlineExceeded

fun ctx_cause_err :: "ctx_cause \<Rightarrow> err" where
  "ctx_cause_err CtxCanceled = Canceled"
| "ctx_cause_err CtxDeadlineExceeded = DeadlineExceeded"

record Context =
  done_tick :: "nat option"
  ctx_Err :: ctx_cause

definition getLockKey :: "RedisLock \<Rightarrow> string" where
  "getLockKey r = RedisLockKeyPrefix @ key r"

text \<open>
  \<open>NewRedisLock\<close>. The token is \<open>utils.GetProcessAndGoroutineIDStr()\<close>, which is not
  part of the source: it is the parameter \<open>tok\<close>.
\<close>

definition NewRedisLock :: "string \<Rightarrow> Client \<Rightarrow> LockOption list \<Rightarrow> string \<Rightarrow> RedisLock" where
  "NewRedisLock k c opts tok =
     setLockOptions
       (foldl apply_LockOption
          \<lparr>isBlock = False, blockWaitingSeconds = 0, expireSeconds = 0, watchDogMode = False,
           key = k, token = tok, client = c, runningDog = 0, stopDog = None\<rparr> opts)"

definition ErrAcquired :: "int \<Rightarrow> err" where
  "ErrAcquired reply = Errorf ''reply: %d, err: %w'' [reply] ErrLockAcquiredByOthers"

definition tryLock :: "RedisLock \<Rightarrow> Context \<Rightarrow> World \<Rightarrow> err option \<times> World" where
  "tryLock r ctx w =
     (case SetNEX (client r) (getLockKey r) (token r) (expireSeconds r) w of
        ((reply, Some e), w1) \<Rightarrow> (Some e, w1)
      | ((reply, None), w1) \<Rightarrow>
          (if reply \<noteq> 1 then (Some (ErrAcquired reply), w1) else (None, w1)))"

text \<open>
  \<open>watchDog\<close>. With watchdog mode off it returns at once. Otherwise it spins on the
  compare-and-swap of \<open>runningDog\<close> from 0 to 1; only the renewal task's own exit
  stores 0 there, so a call that finds the guard taken does not return by any step of
  its own: \<open>None\<close>. With the guard acquired it derives a cancellable context, keeps
  the cancel function in \<open>stopDog\<close> and starts the renewal task.
\<close>

definition watchDog :: "RedisLock \<Rightarrow> Context \<Rightarrow> World \<Rightarrow> (RedisLock \<times> World) option" where
  "watchDog r ctx w =
     (if \<not> watchDogMode r then Some (r, w)
      else if runningDog r \<noteq> 0 then None
      else Some (r\<lparr>runningDog := 1, stopDog := Some (length (dogs w))\<rparr>,
                 w\<lparr>dogs := dogs w @ [False], log := log w @ [StartDog (length (dogs w))]\<rparr>))"

text \<open>The exit of the renewal task (its deferred store to the guard).\<close>

definition runWatchDog_exit :: "RedisLock \<Rightarrow> RedisLock" where
  "runWatchDog_exit r = r\<lparr>runningDog := 0\<rparr>"

definition DelayExpire :: "RedisLock \<Rightarrow> Context \<Rightarrow> int \<Rightarrow> World \<Rightarrow> err option \<times> World" where
  "DelayExpire r ctx expireSecs w =
     (case Eval (client r) LuaCheckAndExpireDistributionLock 1
             [AStr (getLockKey r), AStr (token r), AInt expireSecs] w of
        ((reply, Some e), w1) \<Rightarrow> (Some e, w1)
      | ((reply, None), w1) \<Rightarrow>
          (if as_int64 reply \<noteq> 1
           then (Some (New ''ERROR: Can not expire lock without ownership of lock''), w1)
           else (None, w1)))"

text \<open>One tick of the renewal task that finds its context not cancelled.\<close>

definition runWatchDog_tick :: "RedisLock \<Rightarrow> Context \<Rightarrow> World \<Rightarrow> World" where
  "runWatchDog_tick r ctx w = snd (DelayExpire r ctx (WatchDogWorkStepSeconds + 5) w)"

subsection \<open>Waiting for the lock\<close>

definition ErrBlockTimeout :: err where
  "ErrBlockTimeout = Errorf ''ERROR: Block waiting time out, err: %w'' [] ErrLockAcquiredByOthers"

definition ErrCtx :: "Context \<Rightarrow> err" where
  "ErrCtx ctx = Errorf ''ERROR: Lock failed, ctx timeout, err: %w'' [] (ctx_cause_err (ctx_Err ctx))"

text \<open>The ceiling of the wait, \<open>time.Duration(r.blockWaitingSeconds) * time.Second\<close>.\<close>

definition ceiling_of :: "RedisLock \<Rightarrow> Duration" where
  "ceiling_of r = wrap64 (blockWaitingSeconds r * Second)"

definition tick_period :: Duration where
  "tick_period = wrap64 (50 * Millisecond)"

text \<open>
  The state of the two channels of the \<open>select\<close> at the \<open>k\<close>-th tick of the ticker,
  which is \<open>k\<close> periods after the loop was entered.
\<close>

definition ctx_ready :: "Context \<Rightarrow> nat \<Rightarrow> bool" where
  "ctx_ready ctx k = (case done_tick ctx of None \<Rightarrow> False | Some t \<Rightarrow> t \<le> k)"

definition timeout_ready :: "RedisLock \<Rightarrow> nat \<Rightarrow> bool" where
  "timeout_ready r k = (ceiling_of r \<le> int k * tick_period)"

definition next_pick :: "World \<Rightarrow> bool" where
  "next_pick w = (case picks w of [] \<Rightarrow> True | p # ps \<Rightarrow> p)"

definition drop_pick :: "World \<Rightarrow> World" where
  "drop_pick w = w\<lparr>picks := tl (picks w)\<rparr>"

fun apply_other :: "other_op \<Rightarrow> (server \<Rightarrow> store) \<Rightarrow> (server \<Rightarrow> store)" where
  "apply_other (OtherDel sv k) ss = ss(sv := (ss sv)(k := None))"
| "apply_other (OtherSet sv k v ttl) ss = ss(sv := (ss sv)(k \<mapsto> (v, ttl)))"

text \<open>What the other clients of the servers do while a waiting lock sleeps until its next tick.\<close>

definition others_step :: "World \<Rightarrow> World" where
  "others_step w =
     (case others w of
        [] \<Rightarrow> w
      | ops # rest \<Rightarrow> w\<lparr>servers := fold apply_other ops (servers w), others := rest\<rparr>)"

text \<open>
  The loop of \<open>tryGetBlockingLock\<close> from its \<open>k\<close>-th tick on. A \<open>select\<close> with both
  channels ready takes either case (\<open>picks\<close>); with one ready it takes that case; with
  none it falls through to the attempt.
\<close>

function poll :: "RedisLock \<Rightarrow> Context \<Rightarrow> nat \<Rightarrow> World \<Rightarrow> err option \<times> World" where
  "poll r ctx k w =
     (if ctx_ready ctx k \<and> timeout_ready r k
      then (if next_pick w then (Some (ErrCtx ctx), drop_pick w)
            else (Some ErrBlockTimeout, drop_pick w))
      else if ctx_ready ctx k then (Some (ErrCtx ctx), w)
      else if timeout_ready r k then (Some ErrBlockTimeout, w)
      else (case fst (tryLock r ctx (others_step w)) of
              None \<Rightarrow> (None, snd (tryLock r ctx (others_step w)))
            | Some e \<Rightarrow>
                if \<not> IsRetryableErr e then (Some e, snd (tryLock r ctx (others_step w)))
                else poll r ctx (Suc k) (snd (tryLock r ctx (others_step w)))))"
  by pat_completeness auto
termination
  by (relation "measure (\<lambda>(r, ctx, k, w). nat (ceiling_of r - int k * tick_period))")
     (auto simp: timeout_ready_def tick_period_def wrap64_def Millisecond_def)

declare poll.simps [simp del]

definition tryGetBlockingLock :: "RedisLock \<Rightarrow> Context \<Rightarrow> World \<Rightarrow> err option \<times> World" where
  "tryGetBlockingLock r ctx w = poll r ctx 1 w"

subsection \<open>Lock and Unlock\<close>

text \<open>The deferred function of \<open>Lock\<close>: on success, start the watchdog.\<close>

definition Lock_deferred :: "RedisLock \<Rightarrow> Context \<Rightarrow> err option \<times> World \<Rightarrow> (err option \<times> RedisLock \<times> World) option" where
  "Lock_deferred r ctx res =
     (case res of
        (Some e, w) \<Rightarrow> Some (Some e, r, w)
      | (None, w) \<Rightarrow>
          (case watchDog r ctx w of None \<Rightarrow> None | Some (r1, w1) \<Rightarrow> Some (None, r1, w1)))"

definition Lock :: "RedisLock \<Rightarrow> Context \<Rightarrow> World \<Rightarrow> (err option \<times> RedisLock \<times> World) option" where
  "Lock r ctx w =
     Lock_deferred r ctx
       (case tryLock r ctx w of
          (None, w1) \<Rightarrow> (None, w1)
        | (Some e, w1) \<Rightarrow>
            if \<not> isBlock r then (Some e, w1)
            else if \<not> IsRetryableErr e then (Some e, w1)
            else tryGetBlockingLock r ctx w1)"

text \<open>The deferred function of \<open>Unlock\<close>: call \<open>stopDog\<close> unless it is nil.\<close>

definition Unlock_deferred :: "RedisLock \<Rightarrow> World \<Rightarrow> World" where
  "Unlock_deferred r w =
     (case stopDog r of
        None \<Rightarrow> w
      | Some h \<Rightarrow> w\<lparr>dogs := (dogs w)[h := True], log := log w @ [StopDog h]\<rparr>)"

definition ErrNotOwner :: err where
  "ErrNotOwner = New ''ERROR: Can not unlock without ownership of lock''"

definition Unlock :: "RedisLock \<Rightarrow> Context \<Rightarrow> World \<Rightarrow> err option \<times> World" where
  "Unlock r ctx w =
     (case Eval (client r) LuaCheckAndDeleteDistributionLock 1
             [AStr (getLockKey r), AStr (token r)] w of
        ((reply, Some e), w1) \<Rightarrow> (Some e, Unlock_deferred r w1)
      | ((reply, None), w1) \<Rightarrow>
          (if as_int64 reply \<noteq> 1 then (Some ErrNotOwner, Unlock_deferred r w1)
           else (None, Unlock_deferred r w1)))"

section \<open>The quorum lock\<close>

text \<open>
  \<open>locks\<close> and \<open>successLocks\<close> are slices of pointers to the same lock objects: the
  objects live in \<open>locks\<close>, and \<open>successLocks\<close> holds their positions there. The
  mutex serialises the calls on one lock; a single sequence of calls is what is modelled.
\<close>

record RedLock = RedLockOptions +
  locks :: "RedisLock list"
  successLocks :: "nat list"

definition ErrFewNodes :: err where
  "ErrFewNodes = New ''ERROR: Can not use RedLock less than 3 nodes''"

definition ErrThresholds :: err where
  "ErrThresholds = New ''ERROR: expire thresholds of single node is too long''"

definition ErrRedLockFailed :: err where
  "ErrRedLockFailed = New ''ERROR: RedLock lock failed''"

definition RedLock_options :: "RedLockOption list \<Rightarrow> RedLockOptions" where
  "RedLock_options opts =
     setRedLockOption
       (foldl apply_RedLockOption \<lparr>singleNodesTimeout = 0, expireDuration = 0\<rparr> opts)"

definition NewRedLock :: "string \<Rightarrow> SingleNodeConf list \<Rightarrow> RedLockOption list \<Rightarrow> string \<Rightarrow> err + RedLock" where
  "NewRedLock k confs opts tok =
     (if length confs < 3 then Inl ErrFewNodes
      else let ro = RedLock_options opts
           in if expireDuration ro > 0 \<and>
                 wrap64 (wrap64 (int (length confs) * singleNodesTimeout ro) * 10) > expireDuration ro
              then Inl ErrThresholds
              else Inr \<lparr>singleNodesTimeout = singleNodesTimeout ro,
                        expireDuration = expireDuration ro,
                        locks = map (\<lambda>conf.
                                  NewRedisLock k
                                    (NewClient (Network conf) (Address conf) (Password conf) (Opts conf))
                                    [WithExpireSeconds (Seconds_int64 (expireDuration ro))] tok)
                                confs,
                        successLocks = []\<rparr>)"

text \<open>\<open>time.Since(startTime)\<close>: the next measurement the clock gives.\<close>

definition next_since :: "World \<Rightarrow> Duration" where
  "next_since w = (case since w of [] \<Rightarrow> 0 | d # ds \<Rightarrow> d)"

definition drop_since :: "World \<Rightarrow> World" where
  "drop_since w = w\<lparr>since := tl (since w)\<rparr>"

text \<open>
  The first loop of \<open>RedLock.Lock\<close> over the positions \<open>is\<close> still to visit, with
  the running \<open>successCount\<close>. A node's \<open>Lock\<close> that does not return leaves the
  whole call without a result.
\<close>

fun lock_nodes :: "RedLock \<Rightarrow> Context \<Rightarrow> nat list \<Rightarrow> int \<Rightarrow> World \<Rightarrow> (RedLock \<times> int \<times> World) option" where
  "lock_nodes r ctx [] successCount w = Some (r, successCount, w)"
| "lock_nodes r ctx (i # is) successCount w =
     (case Lock (locks r ! i) ctx w of
        None \<Rightarrow> None
      | Some (e, l, w1) \<Rightarrow>
          (if e = None \<and> next_since w1 \<le> singleNodesTimeout r
           then lock_nodes (r\<lparr>locks := (locks r)[i := l], successLocks := successLocks r @ [i]\<rparr>)
                  ctx is (successCount + 1) (drop_since w1)
           else lock_nodes (r\<lparr>locks := (locks r)[i := l]\<rparr>) ctx is successCount (drop_since w1)))"

text \<open>The roll-back loop: unlock every entry of the success list, dropping the results.\<close>

fun unlock_nodes :: "RedLock \<Rightarrow> Context \<Rightarrow> nat list \<Rightarrow> World \<Rightarrow> World" where
  "unlock_nodes r ctx [] w = w"
| "unlock_nodes r ctx (i # is) w = unlock_nodes r ctx is (snd (Unlock (locks r ! i) ctx w))"

definition RedLock_Lock :: "RedLock \<Rightarrow> Context \<Rightarrow> World \<Rightarrow> (err option \<times> RedLock \<times> World) option" where
  "RedLock_Lock r ctx w =
     (case lock_nodes r ctx [0..<length (locks r)] 0 w of
        None \<Rightarrow> None
      | Some (r1, successCount, w1) \<Rightarrow>
          (if successCount < int (length (locks r1)) div 2 + 1
           then Some (Some ErrRedLockFailed, r1, unlock_nodes r1 ctx (successLocks r1) w1)
           else Some (None, r1, w1)))"

text \<open>The loop of \<open>RedLock.UnLock\<close>, keeping the last error.\<close>

fun unlock_all :: "RedLock \<Rightarrow> Context \<Rightarrow> nat list \<Rightarrow> err option \<Rightarrow> World \<Rightarrow> err option \<times> World" where
  "unlock_all r ctx [] e w = (e, w)"
| "unlock_all r ctx (i # is) e w =
     (case Unlock (locks r ! i) ctx w of
        (Some e1, w1) \<Rightarrow> unlock_all r ctx is (Some e1) w1
      | (None, w1) \<Rightarrow> unlock_all r ctx is e w1)"

definition RedLock_UnLock :: "RedLock \<Rightarrow> Context \<Rightarrow> World \<Rightarrow> err option \<times> World" where
  "RedLock_UnLock r ctx w = unlock_all r ctx (successLocks r) None w"

section \<open>Notions used in the statements\<close>

text \<open>
  The expiry the caller supplied: the argument of the last \<open>WithExpireSeconds\<close> among
  the options. It is an explicit expiry when it is positive; the options value reads a
  field that is zero (or negative) as not set.
\<close>

fun supplied_expiry :: "LockOption list \<Rightarrow> int option" where
  "supplied_expiry [] = None"
| "supplied_expiry (WithExpireSeconds n # os) =
     (case supplied_expiry os of None \<Rightarrow> Some n | Some m \<Rightarrow> Some m)"
| "supplied_expiry (x # os) = supplied_expiry os"

definition explicit_expiry :: "LockOption list \<Rightarrow> bool" where
  "explicit_expiry opts = (case supplied_expiry opts of None \<Rightarrow> False | Some n \<Rightarrow> 0 < n)"

fun is_StartDog :: "event \<Rightarrow> bool" where
  "is_StartDog (StartDog h) = True"
| "is_StartDog ev = False"

text \<open>No renewal task was started between two worlds.\<close>

definition same_dogs :: "World \<Rightarrow> World \<Rightarrow> bool" where
  "same_dogs w w' = (dogs w' = dogs w \<and> filter is_StartDog (log w') = filter is_StartDog (log w))"

subsection \<open>Concrete inputs\<close>

text \<open>A client of the server \<open>n1:6379\<close>, a context that is never cancelled, and a world
  with empty stores in which nothing fails and nobody else acts.\<close>

definition ex_client :: Client where
  "ex_client = NewClient ''tcp'' ''n1:6379'' [] []"

definition ex_ctx :: Context where
  "ex_ctx = \<lparr>done_tick = None, ctx_Err = CtxCanceled\<rparr>"

definition ex_world :: World where
  "ex_world = \<lparr>servers = (\<lambda>sv. Map.empty), faults = [], others = [], picks = [],
     since = [], dogs = [], log = []\<rparr>"

subsection \<open>Notions for the quorum lock\<close>

text \<open>
  What the caller's options supply: the argument of the last \<open>WithSingleNodesTimeout\<close>
  and of the last \<open>WithRedLockExpireDuration\<close>. The per-node timeout in force is the
  supplied one when positive and the default otherwise; the group's expiry is the supplied
  one, zero when none is.
\<close>

fun supplied_timeout :: "RedLockOption list \<Rightarrow> Duration option" where
  "supplied_timeout [] = None"
| "supplied_timeout (WithSingleNodesTimeout d # os) =
     (case supplied_timeout os of None \<Rightarrow> Some d | Some m \<Rightarrow> Some m)"
| "supplied_timeout (x # os) = supplied_timeout os"

fun supplied_duration :: "RedLockOption list \<Rightarrow> Duration option" where
  "supplied_duration [] = None"
| "supplied_duration (WithRedLockExpireDuration d # os) =
     (case supplied_duration os of None \<Rightarrow> Some d | Some m \<Rightarrow> Some m)"
| "supplied_duration (x # os) = supplied_duration os"

definition effective_timeout :: "RedLockOption list \<Rightarrow> Duration" where
  "effective_timeout opts =
     (case supplied_timeout opts of
        None \<Rightarrow> 50 * Millisecond
      | Some d \<Rightarrow> if 0 < d then d else 50 * Millisecond)"

definition group_expiry :: "RedLockOption list \<Rightarrow> Duration" where
  "group_expiry opts = (case supplied_duration opts of None \<Rightarrow> 0 | Some d \<Rightarrow> d)"

definition ex_conf :: "string \<Rightarrow> SingleNodeConf" where
  "ex_conf addr = \<lparr>Network = ''tcp'', Address = addr, Password = [], Opts = []\<rparr>"

definition ex_confs :: "SingleNodeConf list" where
  "ex_confs = [ex_conf ''n1:6379'', ex_conf ''n2:6379'', ex_conf ''n3:6379'']"

subsection \<open>Notions for the single lock\<close>

text \<open>
  The value stored at a key of a server; the two commands a lock sends; the cause a fault
  carries. \<open>stop_before_delete\<close>: in a log, a check-and-delete call comes after a stop of
  a renewal task. The concrete inputs: a non-blocking lock with an explicit expiry; a
  world in which the lock key of every server is held with the value \<open>v\<close>; the lock
  and world a successful \<open>Lock\<close> in watchdog mode leaves; a world whose next call fails.
\<close>

definition stored_value :: "World \<Rightarrow> server \<Rightarrow> string \<Rightarrow> string option" where
  "stored_value w sv k = map_option fst (servers w sv k)"

fun fault_cause :: "fault \<Rightarrow> cause" where
  "fault_cause (GetContextFails ca) = ca"
| "fault_cause (DoFails ca executed) = ca"

definition delete_call :: "RedisLock \<Rightarrow> command" where
  "delete_call r = EVAL LuaCheckAndDeleteDistributionLock 1 [AStr (getLockKey r), AStr (token r)]"

definition set_call :: "RedisLock \<Rightarrow> command" where
  "set_call r = SET_EX_NX (getLockKey r) (token r) (expireSeconds r)"

definition ex_lock :: RedisLock where
  "ex_lock = NewRedisLock ''k'' ex_client [WithExpireSeconds 10] ''t''"

definition held_by :: "string \<Rightarrow> World" where
  "held_by v = ex_world\<lparr>servers := (\<lambda>sv. [''REDIS_LOCK_PREFIX_k'' \<mapsto> (v, 30)])\<rparr>"

fun is_StopDog :: "event \<Rightarrow> bool" where
  "is_StopDog (StopDog h) = True"
| "is_StopDog ev = False"

fun is_delete :: "event \<Rightarrow> bool" where
  "is_delete (Call sv (EVAL LuaCheckAndDeleteDistributionLock n args) res) = True"
| "is_delete ev = False"

definition stop_before_delete :: "event list \<Rightarrow> bool" where
  "stop_before_delete evs = list_ex is_delete (dropWhile (\<lambda>ev. \<not> is_StopDog ev) evs)"

definition armed_lock :: RedisLock where
  "armed_lock = fst (snd (the (Lock (NewRedisLock ''k'' ex_client [] ''t'') ex_ctx ex_world)))"

definition armed_world :: World where
  "armed_world = snd (snd (the (Lock (NewRedisLock ''k'' ex_client [] ''t'') ex_ctx ex_world)))"

definition faulty :: "fault \<Rightarrow> World \<Rightarrow> World" where
  "faulty f w = w\<lparr>faults := [Some f]\<rparr>"

subsection \<open>Notions for the waiting loop\<close>

text \<open>
  One poll of the waiting loop: what the other clients do during the sleep, then the
  attempt; \<open>attempt\<close> is its result and \<open>poll_step\<close> the world it leaves, and
  \<open>worlds r ctx w j\<close> is the world after \<open>j\<close> polls from \<open>w\<close>. \<open>retried\<close>: at
  tick \<open>k\<close> neither channel is ready and the attempt fails with acquired-by-others.
  \<open>decided\<close>: at tick \<open>k\<close> the loop returns \<open>res\<close>, in one of its four ways. The
  concrete inputs: a blocking lock with a ceiling of one second, and a world in which the
  holder releases the key before the second poll; a blocking lock whose ceiling in
  nanoseconds does not fit 64 bits, and a world in which the holder releases the key
  before the first poll.
\<close>

definition attempt :: "RedisLock \<Rightarrow> Context \<Rightarrow> World \<Rightarrow> err option" where
  "attempt r ctx w = fst (tryLock r ctx (others_step w))"

definition poll_step :: "RedisLock \<Rightarrow> Context \<Rightarrow> World \<Rightarrow> World" where
  "poll_step r ctx w = snd (tryLock r ctx (others_step w))"

definition worlds :: "RedisLock \<Rightarrow> Context \<Rightarrow> World \<Rightarrow> nat \<Rightarrow> World" where
  "worlds r ctx w j = (poll_step r ctx ^^ j) w"



definition blocking_lock :: RedisLock where
  "blocking_lock =
     NewRedisLock ''k'' ex_client [WithBlock, WithBlockWaitingSeconds 1, WithExpireSeconds 10] ''t''"




subsection \<open>Notions for the quorum protocol\<close>

text \<open>
  \<open>attempts\<close>: \<open>Lock\<close> on the nodes at the positions \<open>is\<close>, in order, each in the
  world the previous one left; for each node it records the position, the error returned
  and the elapsed time measured. A record qualifies when the error is nil and the time
  is within the budget. \<open>guard_free\<close>: a lock whose \<open>Lock\<close> cannot wait for the
  watchdog guard. \<open>releases\<close>: the check-and-delete calls of a log, in order, each with
  its server; \<open>node_release\<close>: the one a lock's \<open>Unlock\<close> sends. The concrete inputs:
  a quorum lock over three nodes with an expiry of two seconds, and a world in which the
  key is free on the first node and held by another value on the other two.
\<close>

fun attempts :: "RedisLock list \<Rightarrow> Context \<Rightarrow> nat list \<Rightarrow> World \<Rightarrow>
    ((nat \<times> err option \<times> Duration) list \<times> RedisLock list \<times> World) option" where
  "attempts ls ctx [] w = Some ([], ls, w)"
| "attempts ls ctx (i # is) w =
     (case Lock (ls ! i) ctx w of
        None \<Rightarrow> None
      | Some (e, l, w1) \<Rightarrow>
          (case attempts (ls[i := l]) ctx is (drop_since w1) of
             None \<Rightarrow> None
           | Some (rs, ls', w') \<Rightarrow> Some ((i, e, next_since w1) # rs, ls', w')))"

fun qualifies :: "Duration \<Rightarrow> nat \<times> err option \<times> Duration \<Rightarrow> bool" where
  "qualifies budget (i, e, cost) = (e = None \<and> cost \<le> budget)"

definition qualifying :: "Duration \<Rightarrow> (nat \<times> err option \<times> Duration) list \<Rightarrow> nat list" where
  "qualifying budget rs = map fst (filter (qualifies budget) rs)"

definition guard_free :: "RedisLock \<Rightarrow> bool" where
  "guard_free l = (if watchDogMode l then runningDog l = 0 else True)"

fun release_of :: "event \<Rightarrow> (server \<times> command) option" where
  "release_of (Call sv (EVAL LuaCheckAndDeleteDistributionLock n args) res) =
     Some (sv, EVAL LuaCheckAndDeleteDistributionLock n args)"
| "release_of ev = None"

fun releases :: "event list \<Rightarrow> (server \<times> command) list" where
  "releases [] = []"
| "releases (ev # evs) =
     (case release_of ev of None \<Rightarrow> releases evs | Some x \<Rightarrow> x # releases evs)"

definition node_release :: "RedisLock \<Rightarrow> server \<times> command" where
  "node_release l = (server_of (client l), delete_call l)"

definition ex_redlock :: RedLock where
  "ex_redlock = projr (NewRedLock ''k'' ex_confs [WithRedLockExpireDuration (2 * Second)] ''t'')"

definition partly_held :: World where
  "partly_held =
     ex_world\<lparr>servers := (\<lambda>sv. if sv = (''tcp'', ''n1:6379'') then Map.empty
                               else [''REDIS_LOCK_PREFIX_k'' \<mapsto> (''u'', 30)])\<rparr>"

section \<open>Properties\<close>

subsection \<open>Evaluation\<close>

lemma ToLower_OK: "strings_ToLower ''OK'' = ''ok''"
  by code_simp

lemmas ex_defs = ex_client_def ex_ctx_def ex_world_def NewClient_def NewRedisLock_def
  setLockOptions_def setClientArgs_def getRedisPool_def Let_def

lemmas call_defs = tryLock_def SetNEX_def conn_Do_def next_fault_def drop_fault_def
  server_of_def getLockKey_def RedisLockKeyPrefix_def reply_result_def ToLower_OK Eval_def

subsection \<open>Option defaulting\<close>

lemma foldl_LockOption_expireSeconds:
  "expireSeconds (foldl apply_LockOption lo opts) =
     (case supplied_expiry opts of None \<Rightarrow> expireSeconds lo | Some n \<Rightarrow> n)"
proof (induction opts arbitrary: lo)
  case Nil
  then show ?case by simp
next
  case (Cons x xs)
  then show ?case by (cases x) (auto split: option.splits)
qed

lemma apply_LockOption_watchDogMode:
  "watchDogMode (apply_LockOption lo x) = watchDogMode lo"
  by (cases x) simp_all

lemma foldl_LockOption_watchDogMode:
  "watchDogMode (foldl apply_LockOption lo opts) = watchDogMode lo"
  by (induction opts arbitrary: lo) (simp_all add: apply_LockOption_watchDogMode)

lemma apply_LockOption_runningDog:
  "runningDog (apply_LockOption lo x) = runningDog lo"
  by (cases x) simp_all

lemma foldl_LockOption_runningDog:
  "runningDog (foldl apply_LockOption lo opts) = runningDog lo"
  by (induction opts arbitrary: lo) (simp_all add: apply_LockOption_runningDog)

lemma setLockOptions_watchDogMode:
  "watchDogMode (setLockOptions lo) = (watchDogMode lo \<or> expireSeconds lo \<le> 0)"
  by (auto simp: setLockOptions_def Let_def)

lemma setLockOptions_expireSeconds:
  "expireSeconds (setLockOptions lo) =
     (if 0 < expireSeconds lo then expireSeconds lo else DefaultLockExpireSeconds)"
  by (auto simp: setLockOptions_def Let_def)

lemma NewRedisLock_watchDogMode:
  "watchDogMode (NewRedisLock k c opts tok) = (\<not> explicit_expiry opts)"
  by (auto simp: NewRedisLock_def setLockOptions_watchDogMode foldl_LockOption_watchDogMode
      foldl_LockOption_expireSeconds explicit_expiry_def split: option.splits)

subsection \<open>Calls start no renewal task\<close>

lemma drop_fault_fields [simp]:
  "dogs (drop_fault w) = dogs w" "log (drop_fault w) = log w"
  "servers (drop_fault w) = servers w" "others (drop_fault w) = others w"
  "picks (drop_fault w) = picks w" "since (drop_fault w) = since w"
  "faults (drop_fault w) = tl (faults w)"
  by (simp_all add: drop_fault_def)

lemma conn_Do_dogs [simp]: "dogs (snd (conn_Do c cmd w)) = dogs w"
  by (simp add: conn_Do_def Let_def split: option.splits fault.splits)

lemma conn_Do_log:
  "log (snd (conn_Do c cmd w)) = log w @ [Call (server_of c) cmd (fst (conn_Do c cmd w))]"
  by (simp add: conn_Do_def Let_def split: option.splits fault.splits)

lemma same_dogs_refl [simp]: "same_dogs w w"
  by (simp add: same_dogs_def)

lemma same_dogs_trans: "same_dogs w w1 \<Longrightarrow> same_dogs w1 w2 \<Longrightarrow> same_dogs w w2"
  by (simp add: same_dogs_def)

lemma conn_Do_same_dogs: "same_dogs w (snd (conn_Do c cmd w))"
  by (simp add: same_dogs_def conn_Do_log)

lemma SetNEX_same_dogs: "same_dogs w (snd (SetNEX c k v e w))"
proof -
  obtain res w1 where cd: "conn_Do c (SET_EX_NX k v e) w = (res, w1)"
    by (cases "conn_Do c (SET_EX_NX k v e) w")
  then have "same_dogs w w1"
    using conn_Do_same_dogs [of w c "SET_EX_NX k v e"] by simp
  with cd show ?thesis
    by (simp add: SetNEX_def split: sum.splits reply.splits)
qed

lemma tryLock_same_dogs: "same_dogs w (snd (tryLock r ctx w))"
proof -
  obtain n e w1 where sn: "SetNEX (client r) (getLockKey r) (token r) (expireSeconds r) w = ((n, e), w1)"
    by (metis prod.exhaust)
  then have "same_dogs w w1"
    using SetNEX_same_dogs [of w "client r" "getLockKey r" "token r" "expireSeconds r"] by simp
  with sn show ?thesis
    by (simp add: tryLock_def split: option.splits)
qed

lemma others_step_same_dogs: "same_dogs w (others_step w)"
  by (simp add: same_dogs_def others_step_def split: list.splits)

lemma drop_pick_same_dogs: "same_dogs w (drop_pick w)"
  by (simp add: same_dogs_def drop_pick_def)

lemma poll_same_dogs: "same_dogs w (snd (poll r ctx k w))"
proof (induction r ctx k w rule: poll.induct)
  case (1 r ctx k w)
  let ?w1 = "snd (tryLock r ctx (others_step w))"
  have step: "same_dogs w ?w1"
    using others_step_same_dogs tryLock_same_dogs same_dogs_trans by blast
  show ?case
  proof (cases "ctx_ready ctx k \<or> timeout_ready r k")
    case True
    then show ?thesis
      by (subst poll.simps) (auto simp: drop_pick_same_dogs)
  next
    case False
    show ?thesis
    proof (cases "fst (tryLock r ctx (others_step w))")
      case None
      with False step show ?thesis by (subst poll.simps) simp
    next
      case (Some e)
      show ?thesis
      proof (cases "IsRetryableErr e")
        case True
        with False Some have "same_dogs ?w1 (snd (poll r ctx (Suc k) ?w1))"
          using "1.IH" by simp
        with step have "same_dogs w (snd (poll r ctx (Suc k) ?w1))"
          by (rule same_dogs_trans)
        with False Some True show ?thesis by (subst poll.simps) simp
      next
        case nr: False
        with False Some step show ?thesis by (subst poll.simps) simp
      qed
    qed
  qed
qed

lemma Lock_no_watchdog:
  assumes "\<not> watchDogMode r"
  shows "\<exists>e w'. Lock r ctx w = Some (e, r, w') \<and> same_dogs w w'"
proof -
  let ?body = "(case tryLock r ctx w of
          (None, w1) \<Rightarrow> (None, w1)
        | (Some e, w1) \<Rightarrow>
            if \<not> isBlock r then (Some e, w1)
            else if \<not> IsRetryableErr e then (Some e, w1)
            else tryGetBlockingLock r ctx w1)"
  have "same_dogs w (snd (tryLock r ctx w))" by (rule tryLock_same_dogs)
  moreover have "same_dogs (snd (tryLock r ctx w)) (snd (tryGetBlockingLock r ctx (snd (tryLock r ctx w))))"
    by (simp add: tryGetBlockingLock_def poll_same_dogs)
  ultimately have "same_dogs w (snd ?body)"
    by (auto split: prod.splits option.splits intro: same_dogs_trans)
  moreover have "Lock r ctx w = Some (fst ?body, r, snd ?body)"
    using assms by (simp add: Lock_def Lock_deferred_def watchDog_def split: prod.splits option.splits)
  ultimately show ?thesis by blast
qed

lemma Lock_arms_watchdog:
  assumes "watchDogMode r" and "runningDog r = 0" and "fst (tryLock r ctx w) = None"
  shows "Lock r ctx w =
           Some (None, r\<lparr>runningDog := 1, stopDog := Some (length (dogs w))\<rparr>,
                 (snd (tryLock r ctx w))
                   \<lparr>dogs := dogs w @ [False],
                    log := log (snd (tryLock r ctx w)) @ [StartDog (length (dogs w))]\<rparr>)"
proof -
  have "dogs (snd (tryLock r ctx w)) = dogs w"
    using tryLock_same_dogs [of w r ctx] by (simp add: same_dogs_def)
  with assms show ?thesis
    by (cases "tryLock r ctx w") (simp add: Lock_def Lock_deferred_def watchDog_def)
qed


subsection \<open>Watchdog mode and the explicit expiry\<close>

text \<open>
  C5. After the defaulting of \<open>NewRedisLock\<close>, for every list of options, watchdog mode
  is on if and only if the caller supplied no explicit (positive) expiry. A lock built
  with an explicit expiry keeps that expiry, and its \<open>Lock\<close> always returns, leaves the
  lock object as it was and starts no renewal task, whatever the outcome. A lock built
  without one gets the default expiry, and the first successful \<open>Lock\<close> on it starts
  a renewal task.
\<close>

theorem watchdog_iff_no_explicit_expiry:
  "watchDogMode (NewRedisLock k c opts tok) = (\<not> explicit_expiry opts) \<and>
   (explicit_expiry opts \<longrightarrow>
      supplied_expiry opts = Some (expireSeconds (NewRedisLock k c opts tok)) \<and>
      (\<exists>e w'. Lock (NewRedisLock k c opts tok) ctx w = Some (e, NewRedisLock k c opts tok, w') \<and>
         dogs w' = dogs w \<and>
         filter is_StartDog (log w') = filter is_StartDog (log w))) \<and>
   (\<not> explicit_expiry opts \<longrightarrow>
      expireSeconds (NewRedisLock k c opts tok) = DefaultLockExpireSeconds \<and>
      (fst (tryLock (NewRedisLock k c opts tok) ctx w) = None \<longrightarrow>
         (\<exists>r' w'. Lock (NewRedisLock k c opts tok) ctx w = Some (None, r', w') \<and>
            runningDog r' = 1 \<and> stopDog r' = Some (length (dogs w)) \<and>
            dogs w' = dogs w @ [False] \<and>
            filter is_StartDog (log w') =
              filter is_StartDog (log w) @ [StartDog (length (dogs w))])))"
proof (intro conjI impI)
  show wd: "watchDogMode (NewRedisLock k c opts tok) = (\<not> explicit_expiry opts)"
    by (rule NewRedisLock_watchDogMode)
  {
    assume ex: "explicit_expiry opts"
    then show "supplied_expiry opts = Some (expireSeconds (NewRedisLock k c opts tok))"
      by (auto simp: NewRedisLock_def setLockOptions_expireSeconds foldl_LockOption_expireSeconds
          explicit_expiry_def split: option.splits)
    from ex wd have "\<not> watchDogMode (NewRedisLock k c opts tok)" by simp
    from Lock_no_watchdog [OF this, of ctx w]
    show "\<exists>e w'. Lock (NewRedisLock k c opts tok) ctx w = Some (e, NewRedisLock k c opts tok, w') \<and>
         dogs w' = dogs w \<and> filter is_StartDog (log w') = filter is_StartDog (log w)"
      by (auto simp: same_dogs_def)
  }
  {
    assume nex: "\<not> explicit_expiry opts"
    then show "expireSeconds (NewRedisLock k c opts tok) = DefaultLockExpireSeconds"
      by (auto simp: NewRedisLock_def setLockOptions_expireSeconds foldl_LockOption_expireSeconds
          explicit_expiry_def split: option.splits)
    assume ok: "fst (tryLock (NewRedisLock k c opts tok) ctx w) = None"
    from nex wd have m: "watchDogMode (NewRedisLock k c opts tok)" by simp
    have g: "runningDog (NewRedisLock k c opts tok) = 0"
      by (simp add: NewRedisLock_def setLockOptions_def Let_def foldl_LockOption_runningDog)
    have sd: "same_dogs w (snd (tryLock (NewRedisLock k c opts tok) ctx w))"
      by (rule tryLock_same_dogs)
    show "\<exists>r' w'. Lock (NewRedisLock k c opts tok) ctx w = Some (None, r', w') \<and>
            runningDog r' = 1 \<and> stopDog r' = Some (length (dogs w)) \<and>
            dogs w' = dogs w @ [False] \<and>
            filter is_StartDog (log w') =
              filter is_StartDog (log w) @ [StartDog (length (dogs w))]"
      using Lock_arms_watchdog [OF m g ok] sd by (simp add: same_dogs_def)
  }
qed

theorem watchdog_iff_no_explicit_expiry_witness:
  "explicit_expiry [WithExpireSeconds 10] \<and>
   \<not> watchDogMode (NewRedisLock ''k'' ex_client [WithExpireSeconds 10] ''t'') \<and>
   expireSeconds (NewRedisLock ''k'' ex_client [WithExpireSeconds 10] ''t'') = 10 \<and>
   (\<exists>e w'. Lock (NewRedisLock ''k'' ex_client [WithExpireSeconds 10] ''t'') ex_ctx ex_world =
        Some (e, NewRedisLock ''k'' ex_client [WithExpireSeconds 10] ''t'', w') \<and> dogs w' = []) \<and>
   \<not> explicit_expiry [WithBlock] \<and>
   watchDogMode (NewRedisLock ''k'' ex_client [WithBlock] ''t'') \<and>
   fst (tryLock (NewRedisLock ''k'' ex_client [WithBlock] ''t'') ex_ctx ex_world) = None \<and>
   (\<exists>r' w'. Lock (NewRedisLock ''k'' ex_client [WithBlock] ''t'') ex_ctx ex_world = Some (None, r', w') \<and>
        dogs w' = [False])"
proof -
  have a: "explicit_expiry [WithExpireSeconds 10]"
    by (simp add: explicit_expiry_def)
  have b: "\<not> explicit_expiry [WithBlock]"
    by (simp add: explicit_expiry_def)
  have c: "fst (tryLock (NewRedisLock ''k'' ex_client [WithBlock] ''t'') ex_ctx ex_world) = None"
    by (simp add: ex_defs call_defs)
  have d: "dogs ex_world = []"
    by (simp add: ex_world_def)
  from a b c d
    watchdog_iff_no_explicit_expiry [of "''k''" ex_client "[WithExpireSeconds 10]" "''t''" ex_ctx ex_world]
    watchdog_iff_no_explicit_expiry [of "''k''" ex_client "[WithBlock]" "''t''" ex_ctx ex_world]
  show ?thesis by auto
qed

subsection \<open>Construction of the quorum lock\<close>

lemma foldl_RedLockOption_fields:
  "singleNodesTimeout (foldl apply_RedLockOption ro opts) =
     (case supplied_timeout opts of None \<Rightarrow> singleNodesTimeout ro | Some d \<Rightarrow> d)"
  "expireDuration (foldl apply_RedLockOption ro opts) =
     (case supplied_duration opts of None \<Rightarrow> expireDuration ro | Some d \<Rightarrow> d)"
proof (induction opts arbitrary: ro)
  case Nil
  { case 1 show ?case by simp }
  { case 2 show ?case by simp }
next
  case (Cons x xs)
  { case 1 then show ?case using Cons by (cases x) (auto split: option.splits) }
  { case 2 then show ?case using Cons by (cases x) (auto split: option.splits) }
qed

lemma RedLock_options_fields:
  "singleNodesTimeout (RedLock_options opts) = effective_timeout opts"
  "expireDuration (RedLock_options opts) = group_expiry opts"
  by (auto simp: RedLock_options_def setRedLockOption_def foldl_RedLockOption_fields
      effective_timeout_def group_expiry_def DefaultSingleLockTimeout_def split: option.splits)

lemma wrap64_id: "in_int64 x \<Longrightarrow> wrap64 x = x"
  by (simp add: wrap64_def in_int64_def)

lemma wrap64_mult: "wrap64 (wrap64 a * b) = wrap64 (a * b)"
proof -
  have "(wrap64 a * b + 2 ^ 63) mod 2 ^ 64 = (a * b + 2 ^ 63) mod 2 ^ 64"
  proof -
    have "wrap64 a mod 2 ^ 64 = a mod 2 ^ 64"
      unfolding wrap64_def
      by (metis (no_types, opaque_lifting) add_diff_cancel_right' mod_diff_left_eq)
    then have "(wrap64 a * b) mod 2 ^ 64 = (a * b) mod 2 ^ 64"
      by (metis mod_mult_left_eq)
    then show ?thesis
      by (metis mod_add_left_eq)
  qed
  then show ?thesis by (simp add: wrap64_def)
qed

lemma NewRedLock_cases:
  "NewRedLock k confs opts tok =
     (if length confs < 3 then Inl ErrFewNodes
      else if 0 < group_expiry opts \<and>
              group_expiry opts < wrap64 (int (length confs) * effective_timeout opts * 10)
      then Inl ErrThresholds
      else Inr \<lparr>singleNodesTimeout = effective_timeout opts,
                expireDuration = group_expiry opts,
                locks = map (\<lambda>conf.
                          NewRedisLock k
                            (NewClient (Network conf) (Address conf) (Password conf) (Opts conf))
                            [WithExpireSeconds (Seconds_int64 (group_expiry opts))] tok)
                        confs,
                successLocks = []\<rparr>)"
  by (simp add: NewRedLock_def Let_def RedLock_options_fields wrap64_mult)

lemma NewRedisLock_fields:
  "key (NewRedisLock k c opts tok) = k" "token (NewRedisLock k c opts tok) = tok"
  "client (NewRedisLock k c [WithExpireSeconds n] tok) = c"
  "runningDog (NewRedisLock k c [WithExpireSeconds n] tok) = 0"
  "stopDog (NewRedisLock k c [WithExpireSeconds n] tok) = None"
  "isBlock (NewRedisLock k c [WithExpireSeconds n] tok) = False"
proof -
  have a: "key (apply_LockOption lo x) = key lo" "token (apply_LockOption lo x) = token lo"
    for lo :: RedisLock and x
    by (cases x; simp)+
  have "key (foldl apply_LockOption lo opts) = key lo \<and> token (foldl apply_LockOption lo opts) = token lo"
    for lo :: RedisLock
    by (induction opts arbitrary: lo) (simp_all add: a)
  then show "key (NewRedisLock k c opts tok) = k" "token (NewRedisLock k c opts tok) = tok"
    by (simp_all add: NewRedisLock_def setLockOptions_def Let_def)
qed (simp_all add: NewRedisLock_def setLockOptions_def Let_def)

lemma NewClient_server [simp]: "server_of (NewClient nw addr pw copts) = (nw, addr)"
proof -
  have a: "network (apply_ClientOption co x) = network co" "address (apply_ClientOption co x) = address co"
    for co :: ClientOptions and x
    by (cases x; simp)+
  have "network (foldl apply_ClientOption co copts) = network co \<and>
        address (foldl apply_ClientOption co copts) = address co" for co :: ClientOptions
    by (induction copts arbitrary: co) (simp_all add: a)
  then show ?thesis
    by (simp add: NewClient_def server_of_def getRedisPool_def setClientArgs_def Let_def)
qed

text \<open>
  C7 (amended). Construction fails with the too-few-nodes error exactly when fewer than 3
  configurations are given, and with the thresholds error exactly when there are at
  least 3, the group's expiry is positive and \<open>nodeCount * timeout * 10\<close> exceeds it,
  where the timeout is the one in force: the caller's when positive, the default of 50 ms
  otherwise, so the check also applies when the caller configured the expiry only. In
  every other case the result is a lock with one node lock per configuration, in order,
  on the key and bound to that configuration's server, with an empty success list.
  Stated for products that fit a 64-bit duration.
\<close>

theorem NewRedLock_fails_iff:
  assumes "in_int64 (int (length confs) * effective_timeout opts * 10)"
  shows "(NewRedLock k confs opts tok = Inl ErrFewNodes) = (length confs < 3) \<and>
         (NewRedLock k confs opts tok = Inl ErrThresholds) =
           (3 \<le> length confs \<and> 0 < group_expiry opts \<and>
            group_expiry opts < int (length confs) * effective_timeout opts * 10) \<and>
         (NewRedLock k confs opts tok = Inl ErrFewNodes \<or>
          NewRedLock k confs opts tok = Inl ErrThresholds \<or>
          (\<exists>rl. NewRedLock k confs opts tok = Inr rl \<and>
             length (locks rl) = length confs \<and> successLocks rl = [] \<and>
             singleNodesTimeout rl = effective_timeout opts \<and>
             expireDuration rl = group_expiry opts \<and>
             (\<forall>i<length confs.
                key (locks rl ! i) = k \<and> token (locks rl ! i) = tok \<and>
                server_of (client (locks rl ! i)) = (Network (confs ! i), Address (confs ! i)))))"
  using assms
  by (auto simp: NewRedLock_cases wrap64_id ErrFewNodes_def ErrThresholds_def NewRedisLock_fields)

lemma ex_confs_length: "length ex_confs = 3"
  by (simp add: ex_confs_def)

theorem NewRedLock_fails_iff_witness:
  "in_int64 (int (length ex_confs) * effective_timeout [WithRedLockExpireDuration (2 * Second)] * 10) \<and>
   NewRedLock ''k'' ex_confs [WithRedLockExpireDuration (2 * Second)] ''t'' \<noteq> Inl ErrFewNodes \<and>
   NewRedLock ''k'' ex_confs [WithRedLockExpireDuration (2 * Second)] ''t'' \<noteq> Inl ErrThresholds \<and>
   NewRedLock ''k'' (tl ex_confs) [] ''t'' = Inl ErrFewNodes \<and>
   NewRedLock ''k'' ex_confs [WithSingleNodesTimeout Second, WithRedLockExpireDuration (2 * Second)] ''t''
     = Inl ErrThresholds"
proof -
  have a: "in_int64 (int (length ex_confs) * effective_timeout [WithRedLockExpireDuration (2 * Second)] * 10)"
    by (simp add: in_int64_def ex_confs_length effective_timeout_def Millisecond_def)
  have b: "in_int64 (int (length (tl ex_confs)) * effective_timeout [] * 10)"
    by (simp add: in_int64_def ex_confs_def effective_timeout_def Millisecond_def)
  have c: "in_int64 (int (length ex_confs) *
      effective_timeout [WithSingleNodesTimeout Second, WithRedLockExpireDuration (2 * Second)] * 10)"
    by (simp add: in_int64_def ex_confs_length effective_timeout_def Second_def)
  show ?thesis
    using a NewRedLock_fails_iff [OF a, of "''k''" "''t''"] NewRedLock_fails_iff [OF b, of "''k''" "''t''"]
      NewRedLock_fails_iff [OF c, of "''k''" "''t''"]
    by (simp add: ex_confs_def effective_timeout_def group_expiry_def Second_def Millisecond_def)
qed

text \<open>
  C7 as stated fails. With three nodes and only an expiry of one second configured, the
  default timeout enters the check (3 * 50 ms * 10 is 1.5 s) and construction fails,
  although no per-node timeout was configured. With a configured timeout of \<open>2^62\<close> ns
  the product wraps around to a negative duration and construction succeeds, although the
  product exceeds the expiry.
\<close>

theorem NewRedLock_claim_counterexample:
  "NewRedLock ''k'' ex_confs [WithRedLockExpireDuration Second] ''t'' = Inl ErrThresholds \<and>
   \<not> length ex_confs < 3 \<and>
   supplied_timeout [WithRedLockExpireDuration Second] = None \<and>
   isl (NewRedLock ''k'' ex_confs
          [WithSingleNodesTimeout (2 ^ 62), WithRedLockExpireDuration Second] ''t'') = False \<and>
   supplied_timeout [WithSingleNodesTimeout (2 ^ 62), WithRedLockExpireDuration Second] = Some (2 ^ 62) \<and>
   supplied_duration [WithSingleNodesTimeout (2 ^ 62), WithRedLockExpireDuration Second] = Some Second \<and>
   in_int64 (2 ^ 62) \<and>
   Second < int (length ex_confs) * 2 ^ 62 * 10"
  by (simp add: NewRedLock_cases ex_confs_length effective_timeout_def group_expiry_def
      Second_def Millisecond_def wrap64_def in_int64_def)








subsection \<open>Unlock and the non-blocking Lock\<close>

lemma conn_Do_frame [simp]:
  "faults (snd (conn_Do c cmd w)) = tl (faults w)"
  "others (snd (conn_Do c cmd w)) = others w"
  "picks (snd (conn_Do c cmd w)) = picks w"
  "since (snd (conn_Do c cmd w)) = since w"
  by (simp_all add: conn_Do_def Let_def split: option.splits fault.splits)

lemma conn_Do_ok:
  assumes "next_fault w = None"
  shows "fst (conn_Do c cmd w) = reply_result (fst (redis_exec cmd (servers w (server_of c))))"
    and "servers (snd (conn_Do c cmd w)) =
           (servers w)(server_of c := snd (redis_exec cmd (servers w (server_of c))))"
  using assms by (simp_all add: conn_Do_def Let_def)

lemma conn_Do_fault:
  assumes "next_fault w = Some f"
  shows "fst (conn_Do c cmd w) = Inl (cause_err (fault_cause f))"
  using assms by (cases f) (simp_all add: conn_Do_def Let_def)

lemma Eval_conn_Do:
  "snd (Eval c src n args w) = snd (conn_Do c (EVAL src n args) w)"
  "fst (Eval c src n args w) =
     (case fst (conn_Do c (EVAL src n args) w) of Inl e \<Rightarrow> (ReplyNil, Some e) | Inr rep \<Rightarrow> (rep, None))"
  by (cases "conn_Do c (EVAL src n args) w"; simp add: Eval_def split: sum.splits)+

lemma Unlock_deferred_servers [simp]: "servers (Unlock_deferred r w) = servers w"
  by (simp add: Unlock_deferred_def split: option.splits)

lemma Unlock_eq:
  "Unlock r ctx w =
     ((case fst (conn_Do (client r) (delete_call r) w) of
         Inl e \<Rightarrow> Some e
       | Inr rep \<Rightarrow> if as_int64 rep \<noteq> 1 then Some ErrNotOwner else None),
      Unlock_deferred r (snd (conn_Do (client r) (delete_call r) w)))"
  by (cases "conn_Do (client r) (delete_call r) w")
     (simp add: Unlock_def Eval_def delete_call_def split: sum.splits)

lemma delete_exec:
  "redis_exec (delete_call r) kv =
     (if map_option fst (kv (getLockKey r)) = Some (token r)
      then (ReplyInt64 1, kv(getLockKey r := None)) else (ReplyInt64 0, kv))"
  by (auto simp: delete_call_def split: option.splits)

lemma conn_Do_reply_no_fault:
  "fst (conn_Do c cmd w) = Inr rep \<Longrightarrow> next_fault w = None"
  by (auto simp: conn_Do_def Let_def split: option.splits fault.splits)

lemma conn_Do_servers_cases:
  "servers (snd (conn_Do c cmd w)) = servers w \<or>
   servers (snd (conn_Do c cmd w)) =
     (servers w)(server_of c := snd (redis_exec cmd (servers w (server_of c))))"
  by (auto simp: conn_Do_def Let_def split: option.splits fault.splits)

text \<open>
  C1. \<open>Unlock\<close> on every lock and every state of the store. It never fails with the
  not-owner error when the stored value equals the token, and whenever the stored value
  is absent or differs from the token the servers are left as they were, whatever the
  call returns: another holder's key is never deleted. When it succeeds, the stored value
  was the token and the key is deleted, nothing else changed. When the call reaches the
  store and the reply comes back, it fails with the not-owner error exactly when the
  stored value is absent or differs from the token, which is exactly when the script
  returns a code other than 1, and it succeeds exactly when the stored value equals the
  token.
\<close>

theorem Unlock_not_owner_iff:
  "(fst (Unlock r ctx w) = Some ErrNotOwner \<longrightarrow>
      stored_value w (server_of (client r)) (getLockKey r) \<noteq> Some (token r)) \<and>
   (stored_value w (server_of (client r)) (getLockKey r) \<noteq> Some (token r) \<longrightarrow>
      servers (snd (Unlock r ctx w)) = servers w) \<and>
   (fst (Unlock r ctx w) = None \<longrightarrow>
      stored_value w (server_of (client r)) (getLockKey r) = Some (token r) \<and>
      servers (snd (Unlock r ctx w)) =
        (servers w)(server_of (client r) :=
           (servers w (server_of (client r)))(getLockKey r := None))) \<and>
   (next_fault w = None \<longrightarrow>
      (fst (Unlock r ctx w) = Some ErrNotOwner) =
        (stored_value w (server_of (client r)) (getLockKey r) \<noteq> Some (token r)) \<and>
      (fst (Unlock r ctx w) = Some ErrNotOwner) =
        (\<exists>code. code \<noteq> 1 \<and>
           fst (conn_Do (client r) (delete_call r) w) = Inr (ReplyInt64 code)) \<and>
      (fst (Unlock r ctx w) = None) =
        (stored_value w (server_of (client r)) (getLockKey r) = Some (token r)))"
proof (intro conjI impI)
  let ?res = "fst (conn_Do (client r) (delete_call r) w)"
  have ok: "next_fault w = None \<Longrightarrow>
      ?res = reply_result (fst (redis_exec (delete_call r) (servers w (server_of (client r))))) \<and>
      servers (snd (Unlock r ctx w)) =
        (servers w)(server_of (client r) :=
           snd (redis_exec (delete_call r) (servers w (server_of (client r)))))"
    by (simp add: Unlock_eq conn_Do_ok)
  have nf: "next_fault w = None" if "fst (Unlock r ctx w) = Some ErrNotOwner \<or> fst (Unlock r ctx w) = None"
  proof (cases ?res)
    case (Inl e)
    with that have "e = ErrNotOwner" by (auto simp: Unlock_eq)
    moreover from Inl obtain ca where "e = cause_err ca"
      by (auto simp: conn_Do_def Let_def reply_result_def delete_exec
          split: option.splits fault.splits if_splits)
    ultimately show ?thesis by (cases ca) (simp_all add: ErrNotOwner_def)
  next
    case (Inr rep)
    then show ?thesis by (rule conn_Do_reply_no_fault)
  qed
  {
    assume a: "fst (Unlock r ctx w) = Some ErrNotOwner"
    with nf have "next_fault w = None" by simp
    with a ok show "stored_value w (server_of (client r)) (getLockKey r) \<noteq> Some (token r)"
      by (auto simp: Unlock_eq delete_exec stored_value_def reply_result_def ErrNotOwner_def
          split: if_splits)
  }
  {
    assume "stored_value w (server_of (client r)) (getLockKey r) \<noteq> Some (token r)"
    with conn_Do_servers_cases [of "client r" "delete_call r" w]
    show "servers (snd (Unlock r ctx w)) = servers w"
      by (auto simp: Unlock_eq delete_exec stored_value_def)
  }
  {
    assume a: "fst (Unlock r ctx w) = None"
    with nf have n: "next_fault w = None" by simp
    with a ok show "stored_value w (server_of (client r)) (getLockKey r) = Some (token r)"
      by (auto simp: Unlock_eq delete_exec stored_value_def reply_result_def split: if_splits)
    with n ok show "servers (snd (Unlock r ctx w)) =
        (servers w)(server_of (client r) :=
           (servers w (server_of (client r)))(getLockKey r := None))"
      by (simp add: delete_exec stored_value_def)
  }
  {
    assume n: "next_fault w = None"
    show "(fst (Unlock r ctx w) = Some ErrNotOwner) =
        (stored_value w (server_of (client r)) (getLockKey r) \<noteq> Some (token r))"
      by (simp add: Unlock_eq conn_Do_ok [OF n] delete_exec stored_value_def reply_result_def
          ErrNotOwner_def)
    show "(fst (Unlock r ctx w) = Some ErrNotOwner) =
        (\<exists>code. code \<noteq> 1 \<and>
           fst (conn_Do (client r) (delete_call r) w) = Inr (ReplyInt64 code))"
      by (simp add: Unlock_eq conn_Do_ok [OF n] delete_exec stored_value_def reply_result_def
          ErrNotOwner_def)
    show "(fst (Unlock r ctx w) = None) =
        (stored_value w (server_of (client r)) (getLockKey r) = Some (token r))"
      by (simp add: Unlock_eq conn_Do_ok [OF n] delete_exec stored_value_def reply_result_def
          ErrNotOwner_def)
  }
qed

lemmas lock_defs = ex_lock_def held_by_def

theorem Unlock_not_owner_iff_witness:
  "next_fault (held_by ''u'') = None \<and>
   stored_value (held_by ''u'') (server_of (client ex_lock)) (getLockKey ex_lock) = Some ''u'' \<and>
   token ex_lock = ''t'' \<and>
   fst (Unlock ex_lock ex_ctx (held_by ''u'')) = Some ErrNotOwner \<and>
   servers (snd (Unlock ex_lock ex_ctx (held_by ''u''))) = servers (held_by ''u'') \<and>
   next_fault (held_by ''t'') = None \<and>
   stored_value (held_by ''t'') (server_of (client ex_lock)) (getLockKey ex_lock) = Some ''t'' \<and>
   fst (Unlock ex_lock ex_ctx (held_by ''t'')) = None \<and>
   stored_value (snd (Unlock ex_lock ex_ctx (held_by ''t''))) (server_of (client ex_lock))
     (getLockKey ex_lock) = None"
proof -
  have a: "next_fault (held_by ''u'') = None" "next_fault (held_by ''t'') = None"
    by (simp_all add: held_by_def ex_world_def next_fault_def)
  have b: "stored_value (held_by ''u'') (server_of (client ex_lock)) (getLockKey ex_lock) = Some ''u''"
    "stored_value (held_by ''t'') (server_of (client ex_lock)) (getLockKey ex_lock) = Some ''t''"
    "token ex_lock = ''t''"
    by (simp_all add: stored_value_def lock_defs ex_defs getLockKey_def RedisLockKeyPrefix_def)
  have u: "fst (Unlock ex_lock ex_ctx (held_by ''u'')) = Some ErrNotOwner"
    using a b Unlock_not_owner_iff [of ex_lock ex_ctx "held_by ''u''"] by simp
  have us: "servers (snd (Unlock ex_lock ex_ctx (held_by ''u''))) = servers (held_by ''u'')"
    using b Unlock_not_owner_iff [of ex_lock ex_ctx "held_by ''u''"] by simp
  have t: "fst (Unlock ex_lock ex_ctx (held_by ''t'')) = None"
    using a b Unlock_not_owner_iff [of ex_lock ex_ctx "held_by ''t''"] by simp
  then have "servers (snd (Unlock ex_lock ex_ctx (held_by ''t''))) =
      (servers (held_by ''t''))(server_of (client ex_lock) :=
         (servers (held_by ''t'') (server_of (client ex_lock)))(getLockKey ex_lock := None))"
    using Unlock_not_owner_iff [of ex_lock ex_ctx "held_by ''t''"] by blast
  then have ts: "stored_value (snd (Unlock ex_lock ex_ctx (held_by ''t''))) (server_of (client ex_lock))
     (getLockKey ex_lock) = None"
    by (simp add: stored_value_def)
  from a b u us t ts show ?thesis by simp
qed

lemma Unlock_deferred_fields:
  "stopDog r = Some h \<Longrightarrow> log (Unlock_deferred r w) = log w @ [StopDog h]"
  "stopDog r = Some h \<Longrightarrow> dogs (Unlock_deferred r w) = (dogs w)[h := True]"
  "stopDog r = None \<Longrightarrow> Unlock_deferred r w = w"
  by (simp_all add: Unlock_deferred_def)

text \<open>
  C8 (amended). For a lock whose cancel function is set, \<open>Unlock\<close> calls it on every
  return path, whatever the store call gives (a transport error, a not-owner reply or
  success): the effects of \<open>Unlock\<close> are the check-and-delete call followed by the
  stop of the renewal task, in this order, and the stop leaves the store as the call
  left it.
\<close>

theorem Unlock_stops_dog_after_delete:
  assumes "stopDog r = Some h"
  shows "log (snd (Unlock r ctx w)) =
           log w @ [Call (server_of (client r)) (delete_call r)
                      (fst (conn_Do (client r) (delete_call r) w)), StopDog h] \<and>
         dogs (snd (Unlock r ctx w)) = (dogs w)[h := True] \<and>
         servers (snd (Unlock r ctx w)) = servers (snd (conn_Do (client r) (delete_call r) w)) \<and>
         fst (Unlock r ctx w) =
           (case fst (conn_Do (client r) (delete_call r) w) of
              Inl e \<Rightarrow> Some e
            | Inr rep \<Rightarrow> if as_int64 rep \<noteq> 1 then Some ErrNotOwner else None)"
  by (simp add: Unlock_eq Unlock_deferred_fields(1,2) [OF assms] conn_Do_log)

lemma armed_eval:
  "armed_lock = (NewRedisLock ''k'' ex_client [] ''t'')\<lparr>runningDog := 1, stopDog := Some 0\<rparr>"
  "log armed_world =
     [Call (''tcp'', ''n1:6379'') (SET_EX_NX ''REDIS_LOCK_PREFIX_k'' ''t'' 30) (Inr (ReplyString ''OK'')),
      StartDog 0]"
  "dogs armed_world = [False]"
  "faults armed_world = []"
  "servers armed_world (''tcp'', ''n1:6379'') ''REDIS_LOCK_PREFIX_k'' = Some (''t'', 30)"
  by (simp_all add: armed_lock_def armed_world_def ex_defs call_defs Lock_def Lock_deferred_def
      watchDog_def DefaultLockExpireSeconds_def)

lemma armed_lock_fields:
  "stopDog armed_lock = Some 0" "client armed_lock = ex_client" "token armed_lock = ''t''"
  "getLockKey armed_lock = ''REDIS_LOCK_PREFIX_k''"
  by (simp_all add: armed_eval NewRedisLock_def setLockOptions_def Let_def getLockKey_def
      RedisLockKeyPrefix_def)

lemma armed_delete_call:
  "delete_call armed_lock =
     EVAL LuaCheckAndDeleteDistributionLock 1 [AStr ''REDIS_LOCK_PREFIX_k'', AStr ''t'']"
  by (simp add: delete_call_def armed_lock_fields)

lemma ex_client_server: "server_of ex_client = (''tcp'', ''n1:6379'')"
  by (simp add: ex_client_def)

lemma armed_conn_Do:
  "fst (conn_Do ex_client
          (EVAL LuaCheckAndDeleteDistributionLock 1 [AStr ''REDIS_LOCK_PREFIX_k'', AStr ''t''])
          armed_world) = Inr (ReplyInt64 1)"
  by (simp add: conn_Do_ok next_fault_def armed_eval(4,5) reply_result_def ex_client_server)

theorem Unlock_stops_dog_after_delete_witness:
  "stopDog armed_lock = Some 0 \<and>
   log (snd (Unlock armed_lock ex_ctx armed_world)) =
     [Call (''tcp'', ''n1:6379'') (SET_EX_NX ''REDIS_LOCK_PREFIX_k'' ''t'' 30) (Inr (ReplyString ''OK'')),
      StartDog 0,
      Call (''tcp'', ''n1:6379'')
        (EVAL LuaCheckAndDeleteDistributionLock 1 [AStr ''REDIS_LOCK_PREFIX_k'', AStr ''t''])
        (Inr (ReplyInt64 1)),
      StopDog 0] \<and>
   dogs (snd (Unlock armed_lock ex_ctx armed_world)) = [True] \<and>
   fst (Unlock armed_lock ex_ctx armed_world) = None"
  using Unlock_stops_dog_after_delete [OF armed_lock_fields(1), of ex_ctx armed_world]
  by (simp add: armed_conn_Do armed_eval(2,3) armed_lock_fields armed_delete_call ex_client_server)

text \<open>
  C8 as stated fails in its order: on a lock armed by a successful \<open>Lock\<close>, the effects
  of \<open>Unlock\<close> are the check-and-delete call and then the stop; no stop precedes the
  delete.
\<close>

theorem Unlock_stop_order_counterexample:
  "stopDog armed_lock = Some 0 \<and>
   \<not> stop_before_delete (log (snd (Unlock armed_lock ex_ctx armed_world))) \<and>
   drop 2 (log (snd (Unlock armed_lock ex_ctx armed_world))) =
     [Call (''tcp'', ''n1:6379'')
        (EVAL LuaCheckAndDeleteDistributionLock 1 [AStr ''REDIS_LOCK_PREFIX_k'', AStr ''t''])
        (Inr (ReplyInt64 1)),
      StopDog 0]"
  by (simp add: Unlock_eq Unlock_deferred_fields armed_lock_fields conn_Do_log armed_conn_Do
      armed_eval(2,3) armed_delete_call ex_client_server stop_before_delete_def)

lemma getLockKey_nonempty [simp]: "getLockKey r \<noteq> []"
  by (simp add: getLockKey_def RedisLockKeyPrefix_def)

lemma tryLock_eq:
  assumes "token r \<noteq> []"
  shows "tryLock r ctx w =
     ((case fst (conn_Do (client r) (set_call r) w) of
         Inl e \<Rightarrow> Some e
       | Inr (ReplyString s) \<Rightarrow> if strings_ToLower s = ''ok'' then None else Some (ErrAcquired 0)
       | Inr rep \<Rightarrow> if as_int64 rep \<noteq> 1 then Some (ErrAcquired (as_int64 rep)) else None),
      snd (conn_Do (client r) (set_call r) w))"
  using assms
  by (cases "conn_Do (client r) (set_call r) w")
     (simp add: tryLock_def SetNEX_def set_call_def split: sum.splits reply.splits)

lemma set_exec:
  "redis_exec (set_call r) kv =
     (if kv (getLockKey r) = None
      then (ReplyString ''OK'', kv(getLockKey r \<mapsto> (token r, expireSeconds r)))
      else (ReplyNil, kv))"
  by (simp add: set_call_def)

lemma tryLock_held:
  assumes "token r \<noteq> []" and "next_fault w = None"
    and "servers w (server_of (client r)) (getLockKey r) \<noteq> None"
  shows "fst (tryLock r ctx w) = Some (ErrAcquired 0)"
    and "servers (snd (tryLock r ctx w)) = servers w"
    and "fst (conn_Do (client r) (set_call r) w) = Inr ReplyNil"
  using assms
  by (auto simp: tryLock_eq conn_Do_ok set_exec reply_result_def)

lemma tryLock_free:
  assumes "token r \<noteq> []" and "next_fault w = None"
    and "servers w (server_of (client r)) (getLockKey r) = None"
  shows "fst (tryLock r ctx w) = None"
    and "servers (snd (tryLock r ctx w)) =
           (servers w)(server_of (client r) :=
              (servers w (server_of (client r)))(getLockKey r \<mapsto> (token r, expireSeconds r)))"
  using assms
  by (simp_all add: tryLock_eq conn_Do_ok set_exec reply_result_def ToLower_OK)

lemma tryLock_fault:
  assumes "token r \<noteq> []" and "next_fault w = Some f"
  shows "fst (tryLock r ctx w) = Some (cause_err (fault_cause f))"
  using assms by (simp add: tryLock_eq conn_Do_fault)

lemma tryLock_frame:
  assumes "token r \<noteq> []"
  shows "log (snd (tryLock r ctx w)) =
           log w @ [Call (server_of (client r)) (set_call r) (fst (conn_Do (client r) (set_call r) w))]"
    and "dogs (snd (tryLock r ctx w)) = dogs w"
    and "faults (snd (tryLock r ctx w)) = tl (faults w)"
    and "others (snd (tryLock r ctx w)) = others w"
    and "picks (snd (tryLock r ctx w)) = picks w"
    and "since (snd (tryLock r ctx w)) = since w"
  using assms by (simp_all add: tryLock_eq conn_Do_log)

lemma cause_err_not_retryable [simp]: "\<not> IsRetryableErr (cause_err ca)"
  by (cases ca) (simp_all add: IsRetryableErr_def)

lemma ErrAcquired_retryable [simp]:
  "IsRetryableErr (ErrAcquired n)" "errors_Is (ErrAcquired n) ErrLockAcquiredByOthers"
  by (simp_all add: IsRetryableErr_def ErrAcquired_def)

lemma Lock_nonblocking:
  assumes "\<not> isBlock r" and "fst (tryLock r ctx w) = Some e"
  shows "Lock r ctx w = Some (Some e, r, snd (tryLock r ctx w))"
  using assms by (cases "tryLock r ctx w") (simp add: Lock_def Lock_deferred_def)

text \<open>
  C6. A lock with blocking mode off (and a non-empty token), on a key that is already
  held: \<open>Lock\<close> returns the acquired-by-others error after a single conditional set,
  which the store answers with nil; the lock object, the servers and the renewal tasks
  are as they were. When the call fails in transport, \<open>Lock\<close> returns that error
  after the single call.
\<close>

theorem nonblocking_Lock_fails_at_once:
  assumes "\<not> isBlock r" and "token r \<noteq> []"
  shows "(next_fault w = None \<and> servers w (server_of (client r)) (getLockKey r) \<noteq> None \<longrightarrow>
            (\<exists>w'. Lock r ctx w = Some (Some (ErrAcquired 0), r, w') \<and>
               servers w' = servers w \<and> dogs w' = dogs w \<and>
               log w' = log w @ [Call (server_of (client r)) (set_call r) (Inr ReplyNil)]) \<and>
            errors_Is (ErrAcquired 0) ErrLockAcquiredByOthers) \<and>
         (\<forall>f. next_fault w = Some f \<longrightarrow>
            (\<exists>w'. Lock r ctx w = Some (Some (cause_err (fault_cause f)), r, w') \<and>
               dogs w' = dogs w \<and>
               log w' = log w @ [Call (server_of (client r)) (set_call r)
                                   (Inl (cause_err (fault_cause f)))]))"
proof (intro conjI impI allI)
  assume h: "next_fault w = None \<and> servers w (server_of (client r)) (getLockKey r) \<noteq> None"
  then have t: "fst (tryLock r ctx w) = Some (ErrAcquired 0)"
    "servers (snd (tryLock r ctx w)) = servers w"
    "fst (conn_Do (client r) (set_call r) w) = Inr ReplyNil"
    using tryLock_held [OF assms(2)] by simp_all
  show "\<exists>w'. Lock r ctx w = Some (Some (ErrAcquired 0), r, w') \<and>
               servers w' = servers w \<and> dogs w' = dogs w \<and>
               log w' = log w @ [Call (server_of (client r)) (set_call r) (Inr ReplyNil)]"
    using Lock_nonblocking [OF assms(1) t(1)] t(2,3) tryLock_frame(1,2) [OF assms(2), of ctx w]
    by simp
  show "errors_Is (ErrAcquired 0) ErrLockAcquiredByOthers" by simp
next
  fix f assume h: "next_fault w = Some f"
  have t: "fst (tryLock r ctx w) = Some (cause_err (fault_cause f))"
    by (rule tryLock_fault [OF assms(2) h])
  show "\<exists>w'. Lock r ctx w = Some (Some (cause_err (fault_cause f)), r, w') \<and>
               dogs w' = dogs w \<and>
               log w' = log w @ [Call (server_of (client r)) (set_call r)
                                   (Inl (cause_err (fault_cause f)))]"
    using Lock_nonblocking [OF assms(1) t] tryLock_frame(1,2) [OF assms(2), of ctx w]
      conn_Do_fault [OF h, of "client r" "set_call r"]
    by simp
qed

lemma ex_lock_fields:
  "isBlock ex_lock = False" "token ex_lock = ''t''" "client ex_lock = ex_client"
  "getLockKey ex_lock = ''REDIS_LOCK_PREFIX_k''" "expireSeconds ex_lock = 10"
  "watchDogMode ex_lock = False"
  by (simp_all add: ex_lock_def NewRedisLock_def setLockOptions_def Let_def getLockKey_def
      RedisLockKeyPrefix_def)

theorem nonblocking_Lock_fails_at_once_witness:
  "\<not> isBlock ex_lock \<and> token ex_lock \<noteq> [] \<and>
   next_fault (held_by ''u'') = None \<and>
   servers (held_by ''u'') (server_of (client ex_lock)) (getLockKey ex_lock) = Some (''u'', 30) \<and>
   (\<exists>w'. Lock ex_lock ex_ctx (held_by ''u'') = Some (Some (ErrAcquired 0), ex_lock, w') \<and>
      servers w' = servers (held_by ''u'') \<and>
      log w' = [Call (''tcp'', ''n1:6379'') (SET_EX_NX ''REDIS_LOCK_PREFIX_k'' ''t'' 10) (Inr ReplyNil)]) \<and>
   next_fault (faulty (GetContextFails (CauseRemote ''dial tcp: refused'')) ex_world) =
     Some (GetContextFails (CauseRemote ''dial tcp: refused'')) \<and>
   (\<exists>w'. Lock ex_lock ex_ctx (faulty (GetContextFails (CauseRemote ''dial tcp: refused'')) ex_world) =
      Some (Some (Remote ''dial tcp: refused''), ex_lock, w'))"
proof -
  have a: "\<not> isBlock ex_lock" "token ex_lock \<noteq> []"
    by (simp_all add: ex_lock_fields)
  have b: "next_fault (held_by ''u'') = None"
    "servers (held_by ''u'') (server_of (client ex_lock)) (getLockKey ex_lock) = Some (''u'', 30)"
    "log (held_by ''u'') = []"
    by (simp_all add: held_by_def ex_world_def next_fault_def ex_lock_fields)
  have c: "next_fault (faulty (GetContextFails (CauseRemote ''dial tcp: refused'')) ex_world) =
     Some (GetContextFails (CauseRemote ''dial tcp: refused''))"
    by (simp add: faulty_def next_fault_def)
  show ?thesis
    using a b c nonblocking_Lock_fails_at_once [OF a, of "held_by ''u''" ex_ctx]
      nonblocking_Lock_fails_at_once [OF a,
        of "faulty (GetContextFails (CauseRemote ''dial tcp: refused'')) ex_world" ex_ctx]
    by (auto simp: set_call_def ex_lock_fields ex_client_server)
qed

subsection \<open>The waiting loop\<close>

lemma poll_ctx:
  "ctx_ready ctx k \<Longrightarrow> \<not> timeout_ready r k \<Longrightarrow> poll r ctx k w = (Some (ErrCtx ctx), w)"
  by (subst poll.simps) simp

lemma poll_timeout:
  "timeout_ready r k \<Longrightarrow> \<not> ctx_ready ctx k \<Longrightarrow> poll r ctx k w = (Some ErrBlockTimeout, w)"
  by (subst poll.simps) simp

lemma poll_both:
  "ctx_ready ctx k \<Longrightarrow> timeout_ready r k \<Longrightarrow>
   poll r ctx k w = (Some (if next_pick w then ErrCtx ctx else ErrBlockTimeout), drop_pick w)"
  by (subst poll.simps) simp

lemma poll_attempt:
  "\<not> ctx_ready ctx k \<Longrightarrow> \<not> timeout_ready r k \<Longrightarrow>
   poll r ctx k w =
     (case attempt r ctx w of
        None \<Rightarrow> (None, poll_step r ctx w)
      | Some e \<Rightarrow> if \<not> IsRetryableErr e then (Some e, poll_step r ctx w)
                  else poll r ctx (Suc k) (poll_step r ctx w))"
  unfolding attempt_def poll_step_def by (subst poll.simps) simp





lemma not_retryable [simp]: "\<not> IsRetryableErr ErrEmpty" "\<not> IsRetryableErr (Remote s)"
  by (simp_all add: ErrEmpty_def IsRetryableErr_def)



lemma worlds_simps [simp]:
  "worlds r ctx w 0 = w"
  "worlds r ctx w (Suc j) = worlds r ctx (poll_step r ctx w) j"
  by (simp_all add: worlds_def funpow_swap1)


lemma drop_pick_fields [simp]:
  "log (drop_pick w) = log w" "servers (drop_pick w) = servers w" "dogs (drop_pick w) = dogs w"
  by (simp_all add: drop_pick_def)

lemma timeout_ready_eq:
  "timeout_ready r k = (wrap64 (blockWaitingSeconds r * Second) \<le> int k * (50 * Millisecond))"
  by (simp add: timeout_ready_def ceiling_of_def tick_period_def wrap64_def Millisecond_def)

lemma Lock_blocking:
  assumes "isBlock r" and "fst (tryLock r ctx w) = Some e" and "IsRetryableErr e"
  shows "Lock r ctx w = Lock_deferred r ctx (tryGetBlockingLock r ctx (snd (tryLock r ctx w)))"
  using assms by (cases "tryLock r ctx w") (simp add: Lock_def)


lemma blocking_lock_fields:
  "isBlock blocking_lock" "token blocking_lock = ''t''" "client blocking_lock = ex_client"
  "getLockKey blocking_lock = ''REDIS_LOCK_PREFIX_k''" "expireSeconds blocking_lock = 10"
  "blockWaitingSeconds blocking_lock = 1" "watchDogMode blocking_lock = False"
  by (simp_all add: blocking_lock_def NewRedisLock_def setLockOptions_def Let_def getLockKey_def
      RedisLockKeyPrefix_def)








lemma others_step_idle: "others w = [] \<Longrightarrow> others_step w = w"
  by (simp add: others_step_def)

lemma next_fault_none: "faults w = [] \<Longrightarrow> next_fault w = None"
  by (simp add: next_fault_def)

lemma poll_held:
  "token r \<noteq> [] \<Longrightarrow> done_tick ctx = None \<Longrightarrow> faults w = [] \<Longrightarrow> others w = [] \<Longrightarrow>
   servers w (server_of (client r)) (getLockKey r) \<noteq> None \<Longrightarrow>
   fst (poll r ctx k w) = Some ErrBlockTimeout \<and> servers (snd (poll r ctx k w)) = servers w"
proof (induction r ctx k w rule: poll.induct)
  case (1 r ctx k w)
  have nc: "\<not> ctx_ready ctx k"
    using "1.prems"(2) by (simp add: ctx_ready_def)
  show ?case
  proof (cases "timeout_ready r k")
    case True
    with nc show ?thesis by (simp add: poll_timeout)
  next
    case False
    have idle: "others_step w = w" using "1.prems"(4) by (rule others_step_idle)
    have nf: "next_fault w = None" using "1.prems"(3) by (rule next_fault_none)
    have t: "fst (tryLock r ctx w) = Some (ErrAcquired 0)" "servers (snd (tryLock r ctx w)) = servers w"
      using tryLock_held [OF "1.prems"(1) nf "1.prems"(5)] by simp_all
    have f: "faults (snd (tryLock r ctx w)) = []" "others (snd (tryLock r ctx w)) = []"
      using tryLock_frame(3,4) [OF "1.prems"(1), of ctx w] "1.prems"(3,4) by simp_all
    have ih: "fst (poll r ctx (Suc k) (snd (tryLock r ctx w))) = Some ErrBlockTimeout \<and>
        servers (snd (poll r ctx (Suc k) (snd (tryLock r ctx w)))) = servers (snd (tryLock r ctx w))"
      using "1.IH" [of "ErrAcquired 0"] nc False t f "1.prems"(1,2,5) idle by simp
    have "poll r ctx k w = poll r ctx (Suc k) (snd (tryLock r ctx w))"
      using nc False t(1) idle by (simp add: poll_attempt attempt_def poll_step_def)
    with ih t(2) show ?thesis by simp
  qed
qed

lemma Lock_deferred_error:
  "fst res = Some e \<Longrightarrow> Lock_deferred r ctx res = Some (Some e, r, snd res)"
  by (cases res) (simp add: Lock_deferred_def)

text \<open>
  C10. The blocking-timeout error wraps the sentinel: \<open>errors.Is\<close> against
  \<open>ErrLockAcquiredByOthers\<close> and \<open>IsRetryableErr\<close> hold for it, as they do for the
  contention error of a single attempt. It is what the loop returns at a tick where the
  ceiling has elapsed and the context is not cancelled. On a key that stays held, a
  blocking \<open>Lock\<close> returns the timeout error and a non-blocking \<open>Lock\<close> the
  contention error: two different errors that the sentinel test does not tell apart.
\<close>

theorem blocking_timeout_wraps_sentinel:
  "errors_Is ErrBlockTimeout ErrLockAcquiredByOthers \<and> IsRetryableErr ErrBlockTimeout \<and>
   (timeout_ready r k \<and> \<not> ctx_ready ctx k \<longrightarrow> fst (poll r ctx k w) = Some ErrBlockTimeout) \<and>
   (token r \<noteq> [] \<and> faults w = [] \<and> others w = [] \<and>
    servers w (server_of (client r)) (getLockKey r) \<noteq> None \<longrightarrow>
      (isBlock r \<and> done_tick ctx = None \<longrightarrow>
         (\<exists>w'. Lock r ctx w = Some (Some ErrBlockTimeout, r, w') \<and> servers w' = servers w)) \<and>
      (\<not> isBlock r \<longrightarrow>
         (\<exists>w'. Lock r ctx w = Some (Some (ErrAcquired 0), r, w') \<and> servers w' = servers w)) \<and>
      ErrAcquired 0 \<noteq> ErrBlockTimeout \<and>
      IsRetryableErr (ErrAcquired 0) = IsRetryableErr ErrBlockTimeout \<and>
      errors_Is (ErrAcquired 0) ErrLockAcquiredByOthers =
        errors_Is ErrBlockTimeout ErrLockAcquiredByOthers)"
proof (intro conjI impI)
  show "errors_Is ErrBlockTimeout ErrLockAcquiredByOthers" "IsRetryableErr ErrBlockTimeout"
    by (simp_all add: ErrBlockTimeout_def IsRetryableErr_def)
  then show "IsRetryableErr (ErrAcquired 0) = IsRetryableErr ErrBlockTimeout"
    "errors_Is (ErrAcquired 0) ErrLockAcquiredByOthers = errors_Is ErrBlockTimeout ErrLockAcquiredByOthers"
    by simp_all
  show "ErrAcquired 0 \<noteq> ErrBlockTimeout"
    by (simp add: ErrAcquired_def ErrBlockTimeout_def)
next
  assume "timeout_ready r k \<and> \<not> ctx_ready ctx k"
  then show "fst (poll r ctx k w) = Some ErrBlockTimeout" by (simp add: poll_timeout)
next
  assume h: "token r \<noteq> [] \<and> faults w = [] \<and> others w = [] \<and>
    servers w (server_of (client r)) (getLockKey r) \<noteq> None"
  then have nf: "next_fault w = None" by (simp add: next_fault_none)
  from h nf have t: "fst (tryLock r ctx w) = Some (ErrAcquired 0)"
    "servers (snd (tryLock r ctx w)) = servers w"
    using tryLock_held(1,2) [of r w ctx] by simp_all
  {
    assume b: "isBlock r \<and> done_tick ctx = None"
    let ?w1 = "snd (tryLock r ctx w)"
    have f: "faults ?w1 = []" "others ?w1 = []"
      using tryLock_frame(3,4) [of r ctx w] h by simp_all
    have p: "fst (tryGetBlockingLock r ctx ?w1) = Some ErrBlockTimeout \<and>
        servers (snd (tryGetBlockingLock r ctx ?w1)) = servers ?w1"
      unfolding tryGetBlockingLock_def
      using poll_held [of r ctx ?w1 1] h b f t(2) by simp
    have "Lock r ctx w = Lock_deferred r ctx (tryGetBlockingLock r ctx ?w1)"
      using Lock_blocking [of r ctx w "ErrAcquired 0"] b t(1) by simp
    with p t(2) Lock_deferred_error [of "tryGetBlockingLock r ctx ?w1" ErrBlockTimeout r ctx]
    show "\<exists>w'. Lock r ctx w = Some (Some ErrBlockTimeout, r, w') \<and> servers w' = servers w"
      by simp
  }
  {
    assume "\<not> isBlock r"
    from Lock_nonblocking [OF this t(1)] t(2)
    show "\<exists>w'. Lock r ctx w = Some (Some (ErrAcquired 0), r, w') \<and> servers w' = servers w"
      by simp
  }
qed

theorem blocking_timeout_wraps_sentinel_witness:
  "token blocking_lock \<noteq> [] \<and> faults (held_by ''u'') = [] \<and> others (held_by ''u'') = [] \<and>
   servers (held_by ''u'') (server_of (client blocking_lock)) (getLockKey blocking_lock) \<noteq> None \<and>
   isBlock blocking_lock \<and> done_tick ex_ctx = None \<and>
   (\<exists>w'. Lock blocking_lock ex_ctx (held_by ''u'') = Some (Some ErrBlockTimeout, blocking_lock, w')) \<and>
   \<not> isBlock ex_lock \<and> token ex_lock \<noteq> [] \<and>
   servers (held_by ''u'') (server_of (client ex_lock)) (getLockKey ex_lock) \<noteq> None \<and>
   (\<exists>w'. Lock ex_lock ex_ctx (held_by ''u'') = Some (Some (ErrAcquired 0), ex_lock, w')) \<and>
   IsRetryableErr ErrBlockTimeout \<and> IsRetryableErr (ErrAcquired 0) \<and>
   timeout_ready blocking_lock 20 \<and> \<not> ctx_ready ex_ctx 20 \<and>
   fst (poll blocking_lock ex_ctx 20 ex_world) = Some ErrBlockTimeout"
proof -
  have a: "token blocking_lock \<noteq> [] \<and> faults (held_by ''u'') = [] \<and> others (held_by ''u'') = [] \<and>
      servers (held_by ''u'') (server_of (client blocking_lock)) (getLockKey blocking_lock) \<noteq> None"
    "isBlock blocking_lock \<and> done_tick ex_ctx = None"
    by (simp_all add: blocking_lock_fields held_by_def ex_world_def ex_client_server ex_ctx_def)
  have b: "token ex_lock \<noteq> [] \<and> faults (held_by ''u'') = [] \<and> others (held_by ''u'') = [] \<and>
      servers (held_by ''u'') (server_of (client ex_lock)) (getLockKey ex_lock) \<noteq> None"
    "\<not> isBlock ex_lock"
    by (simp_all add: ex_lock_fields held_by_def ex_world_def ex_client_server)
  have c: "timeout_ready blocking_lock 20 \<and> \<not> ctx_ready ex_ctx 20"
    by (simp add: timeout_ready_eq blocking_lock_fields wrap64_def Second_def Millisecond_def
        ctx_ready_def ex_ctx_def)
  show ?thesis
    using a b c
      blocking_timeout_wraps_sentinel [of blocking_lock 20 ex_ctx ex_world]
      blocking_timeout_wraps_sentinel [of blocking_lock 20 ex_ctx "held_by ''u''"]
      blocking_timeout_wraps_sentinel [of ex_lock 20 ex_ctx "held_by ''u''"]
    by auto
qed

subsection \<open>The quorum protocol\<close>

lemma lock_nodes_attempts:
  "lock_nodes r ctx is c w =
     (case attempts (locks r) ctx is w of
        None \<Rightarrow> None
      | Some (rs, ls, w1) \<Rightarrow>
          Some (r\<lparr>locks := ls,
                  successLocks := successLocks r @ qualifying (singleNodesTimeout r) rs\<rparr>,
                c + int (length (qualifying (singleNodesTimeout r) rs)), w1))"
proof (induction "is" arbitrary: r c w)
  case Nil
  then show ?case by (simp add: qualifying_def)
next
  case (Cons i "is")
  show ?case
  proof (cases "Lock (locks r ! i) ctx w")
    case None
    then show ?thesis by simp
  next
    case (Some res)
    obtain e l w1 where res: "res = (e, l, w1)" by (cases res)
    show ?thesis
    proof (cases "attempts ((locks r)[i := l]) ctx is (drop_since w1)")
      case None
      with Some res show ?thesis by (simp add: Cons.IH)
    next
      case (Some res2)
      obtain rs ls w2 where res2: "res2 = (rs, ls, w2)" by (cases res2)
      with Some \<open>Lock (locks r ! i) ctx w = Some res\<close> res show ?thesis
        by (simp add: Cons.IH qualifying_def)
    qed
  qed
qed

lemma unlock_nodes_fold:
  "unlock_nodes r ctx is w = fold (\<lambda>i w. snd (Unlock (locks r ! i) ctx w)) is w"
  by (induction "is" arbitrary: w) simp_all

lemma Lock_deferred_returns:
  assumes "guard_free l"
  shows "\<exists>e l' w'. Lock_deferred l ctx res = Some (e, l', w')"
proof (cases res)
  case (Pair e w)
  with assms show ?thesis
    by (cases e) (auto simp: Lock_deferred_def watchDog_def guard_free_def)
qed

lemma Lock_returns:
  assumes "guard_free l"
  shows "\<exists>e l' w'. Lock l ctx w = Some (e, l', w')"
  unfolding Lock_def by (rule Lock_deferred_returns [OF assms])

lemma attempts_shape:
  "attempts ls ctx is w = Some (rs, ls', w') \<Longrightarrow> map fst rs = is \<and> length ls' = length ls"
proof (induction "is" arbitrary: ls w rs)
  case Nil
  then show ?case by simp
next
  case (Cons i "is")
  from Cons.prems obtain e l w1 rs1 where
    "attempts (ls[i := l]) ctx is (drop_since w1) = Some (rs1, ls', w')"
    "rs = (i, e, next_since w1) # rs1"
    by (auto split: option.splits)
  with Cons.IH [of "ls[i := l]" "drop_since w1" rs1] show ?case by simp
qed

lemma attempts_returns:
  "distinct is \<Longrightarrow> \<forall>i \<in> set is. i < length ls \<and> guard_free (ls ! i) \<Longrightarrow>
   \<exists>rs ls' w'. attempts ls ctx is w = Some (rs, ls', w')"
proof (induction "is" arbitrary: ls w)
  case Nil
  then show ?case by simp
next
  case (Cons i "is")
  from Cons.prems have "guard_free (ls ! i)" by simp
  from Lock_returns [OF this, of ctx w]
  obtain e l w1 where lk: "Lock (ls ! i) ctx w = Some (e, l, w1)" by blast
  have "\<forall>j \<in> set is. j < length (ls[i := l]) \<and> guard_free (ls[i := l] ! j)"
  proof
    fix j assume j: "j \<in> set is"
    with Cons.prems(1) have "j \<noteq> i" by auto
    with j Cons.prems(2) show "j < length (ls[i := l]) \<and> guard_free (ls[i := l] ! j)" by simp
  qed
  with Cons.IH [of "ls[i := l]" "drop_since w1"] Cons.prems(1)
  obtain rs ls' w' where "attempts (ls[i := l]) ctx is (drop_since w1) = Some (rs, ls', w')"
    by auto
  with lk show ?case by simp
qed

text \<open>
  C2. \<open>RedLock.Lock\<close> against the sequence of its node attempts. \<open>attempts\<close> runs
  \<open>Lock\<close> on every node in order and records, for each, the error returned and the
  elapsed time measured. A node counts, and its position is appended to the success list,
  exactly when its \<open>Lock\<close> returned no error and the measured time did not exceed
  the per-node timeout. If fewer than \<open>n div 2 + 1\<close> nodes count, every entry of the
  resulting success list is unlocked, the results of the unlocks dropped, and the
  quorum error is returned; otherwise the call succeeds and the world is the one the
  attempts left, with the success list kept. The call returns whenever every node's
  \<open>Lock\<close> does, which is the case when no node lock waits for its watchdog guard.
\<close>

theorem RedLock_Lock_quorum:
  "(\<forall>rs ls w1. attempts (locks r) ctx [0..<length (locks r)] w = Some (rs, ls, w1) \<longrightarrow>
      RedLock_Lock r ctx w =
        (if int (length (qualifying (singleNodesTimeout r) rs)) < int (length (locks r)) div 2 + 1
         then Some (Some ErrRedLockFailed,
                    r\<lparr>locks := ls,
                      successLocks := successLocks r @ qualifying (singleNodesTimeout r) rs\<rparr>,
                    fold (\<lambda>i w. snd (Unlock (ls ! i) ctx w))
                      (successLocks r @ qualifying (singleNodesTimeout r) rs) w1)
         else Some (None,
                    r\<lparr>locks := ls,
                      successLocks := successLocks r @ qualifying (singleNodesTimeout r) rs\<rparr>,
                    w1))) \<and>
   (attempts (locks r) ctx [0..<length (locks r)] w = None \<longrightarrow> RedLock_Lock r ctx w = None) \<and>
   ((\<forall>l \<in> set (locks r). guard_free l) \<longrightarrow>
      (\<exists>rs ls w1. attempts (locks r) ctx [0..<length (locks r)] w = Some (rs, ls, w1) \<and>
         map fst rs = [0..<length (locks r)] \<and> length ls = length (locks r)))"
proof (intro conjI allI impI)
  fix rs ls w1
  assume a: "attempts (locks r) ctx [0..<length (locks r)] w = Some (rs, ls, w1)"
  have len: "length ls = length (locks r)"
    using attempts_shape [OF a] by simp
  show "RedLock_Lock r ctx w =
        (if int (length (qualifying (singleNodesTimeout r) rs)) < int (length (locks r)) div 2 + 1
         then Some (Some ErrRedLockFailed,
                    r\<lparr>locks := ls,
                      successLocks := successLocks r @ qualifying (singleNodesTimeout r) rs\<rparr>,
                    fold (\<lambda>i w. snd (Unlock (ls ! i) ctx w))
                      (successLocks r @ qualifying (singleNodesTimeout r) rs) w1)
         else Some (None,
                    r\<lparr>locks := ls,
                      successLocks := successLocks r @ qualifying (singleNodesTimeout r) rs\<rparr>,
                    w1))"
    using a len by (simp add: RedLock_Lock_def lock_nodes_attempts unlock_nodes_fold)
next
  assume "attempts (locks r) ctx [0..<length (locks r)] w = None"
  then show "RedLock_Lock r ctx w = None"
    by (simp add: RedLock_Lock_def lock_nodes_attempts)
next
  assume "\<forall>l \<in> set (locks r). guard_free l"
  then have "\<forall>i \<in> set [0..<length (locks r)]. i < length (locks r) \<and> guard_free (locks r ! i)"
    by simp
  from attempts_returns [OF _ this, of ctx w]
  obtain rs ls w1 where a: "attempts (locks r) ctx [0..<length (locks r)] w = Some (rs, ls, w1)"
    by auto
  with attempts_shape [OF a]
  show "\<exists>rs ls w1. attempts (locks r) ctx [0..<length (locks r)] w = Some (rs, ls, w1) \<and>
         map fst rs = [0..<length (locks r)] \<and> length ls = length (locks r)"
    by simp
qed

lemma releases_append [simp]: "releases (xs @ ys) = releases xs @ releases ys"
  by (induction xs) (simp_all split: option.splits)

lemma Unlock_releases:
  "releases (log (snd (Unlock l ctx w))) = releases (log w) @ [node_release l]"
  by (cases "stopDog l")
     (simp_all add: Unlock_eq Unlock_deferred_fields conn_Do_log node_release_def delete_call_def)

lemma unlock_all_releases:
  "releases (log (snd (unlock_all r ctx is e w))) =
     releases (log w) @ map (\<lambda>i. node_release (locks r ! i)) is"
proof (induction "is" arbitrary: e w)
  case Nil
  then show ?case by simp
next
  case (Cons i "is")
  have "releases (log (snd (Unlock (locks r ! i) ctx w))) =
      releases (log w) @ [node_release (locks r ! i)]"
    by (rule Unlock_releases)
  then show ?case
    by (cases "Unlock (locks r ! i) ctx w") (auto simp: Cons.IH split: option.splits)
qed

lemma fold_Unlock_releases:
  "releases (log (fold (\<lambda>i w. snd (Unlock (ls ! i) ctx w)) is w)) =
     releases (log w) @ map (\<lambda>i. node_release (ls ! i)) is"
  by (induction "is" arbitrary: w) (simp_all add: Unlock_releases)

lemma tryLock_releases: "releases (log (snd (tryLock r ctx w))) = releases (log w)"
proof (cases "token r = []")
  case True
  then show ?thesis by (simp add: tryLock_def SetNEX_def)
next
  case False
  then show ?thesis by (simp add: tryLock_frame(1) set_call_def)
qed

lemma others_step_log [simp]: "log (others_step w) = log w"
  by (simp add: others_step_def split: list.splits)

lemma poll_releases: "releases (log (snd (poll r ctx k w))) = releases (log w)"
proof (induction r ctx k w rule: poll.induct)
  case (1 r ctx k w)
  have step: "releases (log (poll_step r ctx w)) = releases (log w)"
    by (simp add: poll_step_def tryLock_releases)
  show ?case
  proof (cases "ctx_ready ctx k \<or> timeout_ready r k")
    case True
    then show ?thesis
      by (cases "ctx_ready ctx k"; cases "timeout_ready r k")
         (simp_all add: poll_ctx poll_timeout poll_both)
  next
    case False
    show ?thesis
    proof (cases "attempt r ctx w")
      case None
      with False step show ?thesis by (simp add: poll_attempt)
    next
      case (Some e)
      show ?thesis
      proof (cases "IsRetryableErr e")
        case True
        with False Some "1.IH" [of e]
        have "releases (log (snd (poll r ctx (Suc k) (poll_step r ctx w)))) =
            releases (log (poll_step r ctx w))"
          by (simp add: attempt_def poll_step_def)
        with False Some True step show ?thesis by (simp add: poll_attempt)
      next
        case nr: False
        with False Some step show ?thesis by (simp add: poll_attempt)
      qed
    qed
  qed
qed

lemma Lock_releases:
  assumes "Lock l ctx w = Some (e, l', w')"
  shows "releases (log w') = releases (log w)"
proof -
  let ?body = "(case tryLock l ctx w of
          (None, w1) \<Rightarrow> (None, w1)
        | (Some e, w1) \<Rightarrow>
            if \<not> isBlock l then (Some e, w1)
            else if \<not> IsRetryableErr e then (Some e, w1)
            else tryGetBlockingLock l ctx w1)"
  have b: "releases (log (snd ?body)) = releases (log w)"
    using tryLock_releases [of l ctx w]
      poll_releases [of l ctx 1 "snd (tryLock l ctx w)"]
    by (auto simp: tryGetBlockingLock_def split: prod.splits option.splits)
  have "Lock_deferred l ctx ?body = Some (e, l', w')"
    using assms by (simp add: Lock_def)
  then have "releases (log w') = releases (log (snd ?body))"
    by (cases ?body)
       (auto simp: Lock_deferred_def watchDog_def split: option.splits if_splits)
  with b show ?thesis by simp
qed

lemma attempts_releases:
  "attempts ls ctx is w = Some (rs, ls', w') \<Longrightarrow> releases (log w') = releases (log w)"
proof (induction "is" arbitrary: ls w rs)
  case Nil
  then show ?case by simp
next
  case (Cons i "is")
  from Cons.prems obtain e l w1 rs1 where
    lk: "Lock (ls ! i) ctx w = Some (e, l, w1)" and
    rest: "attempts (ls[i := l]) ctx is (drop_since w1) = Some (rs1, ls', w')"
    by (auto split: option.splits)
  from Cons.IH [OF rest] Lock_releases [OF lk] show ?case
    by (simp add: drop_since_def)
qed

text \<open>
  C9. The success list is only appended to. After any \<open>Lock\<close> the old list is a
  prefix of the new one, also when the call fails; on failure the roll-back issues one
  release per entry of the whole list, old entries included, and no release otherwise.
  \<open>UnLock\<close> issues one release per entry and leaves the lock object, hence the list,
  as it is: a second \<open>UnLock\<close> releases the same entries again, and an \<open>UnLock\<close>
  after a failed \<open>Lock\<close> releases again the nodes that the roll-back released.
\<close>

theorem success_list_only_grows:
  "(\<forall>res r1 w1. RedLock_Lock r ctx w = Some (res, r1, w1) \<longrightarrow>
      (\<exists>q. successLocks r1 = successLocks r @ q) \<and>
      (res = None \<or> res = Some ErrRedLockFailed) \<and>
      (res = Some ErrRedLockFailed \<longrightarrow>
         releases (log w1) =
           releases (log w) @ map (\<lambda>i. node_release (locks r1 ! i)) (successLocks r1)) \<and>
      (res = None \<longrightarrow> releases (log w1) = releases (log w)) \<and>
      releases (log (snd (RedLock_UnLock r1 ctx w1))) =
        releases (log w1) @ map (\<lambda>i. node_release (locks r1 ! i)) (successLocks r1)) \<and>
   releases (log (snd (RedLock_UnLock r ctx w))) =
     releases (log w) @ map (\<lambda>i. node_release (locks r ! i)) (successLocks r) \<and>
   releases (log (snd (RedLock_UnLock r ctx (snd (RedLock_UnLock r ctx w))))) =
     releases (log w) @ map (\<lambda>i. node_release (locks r ! i)) (successLocks r)
       @ map (\<lambda>i. node_release (locks r ! i)) (successLocks r)"
proof (intro conjI allI impI)
  fix res r1 w1
  assume a: "RedLock_Lock r ctx w = Some (res, r1, w1)"
  then obtain rs ls w0 where at: "attempts (locks r) ctx [0..<length (locks r)] w = Some (rs, ls, w0)"
    by (auto simp: RedLock_Lock_def lock_nodes_attempts split: option.splits)
  let ?q = "qualifying (singleNodesTimeout r) rs"
  have len: "length ls = length (locks r)" using attempts_shape [OF at] by simp
  have r1: "r1 = r\<lparr>locks := ls, successLocks := successLocks r @ ?q\<rparr>"
    using a at by (auto simp: RedLock_Lock_def lock_nodes_attempts split: if_splits)
  have w0: "releases (log w0) = releases (log w)" by (rule attempts_releases [OF at])
  show "\<exists>q. successLocks r1 = successLocks r @ q" using r1 by simp
  show "res = None \<or> res = Some ErrRedLockFailed"
    using a at by (auto simp: RedLock_Lock_def lock_nodes_attempts split: if_splits)
  {
    assume f: "res = Some ErrRedLockFailed"
    with a at len have "w1 = fold (\<lambda>i w. snd (Unlock (ls ! i) ctx w)) (successLocks r @ ?q) w0"
      by (auto simp: RedLock_Lock_def lock_nodes_attempts unlock_nodes_fold split: if_splits)
    then show "releases (log w1) =
        releases (log w) @ map (\<lambda>i. node_release (locks r1 ! i)) (successLocks r1)"
      using r1 w0 by (simp add: fold_Unlock_releases)
  }
  {
    assume "res = None"
    with a at len have "w1 = w0"
      by (auto simp: RedLock_Lock_def lock_nodes_attempts split: if_splits)
    with w0 show "releases (log w1) = releases (log w)" by simp
  }
  show "releases (log (snd (RedLock_UnLock r1 ctx w1))) =
      releases (log w1) @ map (\<lambda>i. node_release (locks r1 ! i)) (successLocks r1)"
    by (simp add: RedLock_UnLock_def unlock_all_releases)
next
  show "releases (log (snd (RedLock_UnLock r ctx w))) =
     releases (log w) @ map (\<lambda>i. node_release (locks r ! i)) (successLocks r)"
    by (simp add: RedLock_UnLock_def unlock_all_releases)
  show "releases (log (snd (RedLock_UnLock r ctx (snd (RedLock_UnLock r ctx w))))) =
     releases (log w) @ map (\<lambda>i. node_release (locks r ! i)) (successLocks r)
       @ map (\<lambda>i. node_release (locks r ! i)) (successLocks r)"
    by (simp add: RedLock_UnLock_def unlock_all_releases)
qed

lemma ex_redlock_eval:
  "NewRedLock ''k'' ex_confs [WithRedLockExpireDuration (2 * Second)] ''t'' = Inr ex_redlock"
  "length (locks ex_redlock) = 3"
  "successLocks ex_redlock = []"
  "singleNodesTimeout ex_redlock = 50 * Millisecond"
  by (simp_all add: ex_redlock_def NewRedLock_cases ex_confs_def effective_timeout_def
      group_expiry_def Second_def Millisecond_def wrap64_def)

lemma ex_redlock_locks:
  "locks ex_redlock =
     map (\<lambda>a. NewRedisLock ''k'' (NewClient ''tcp'' a [] []) [WithExpireSeconds 2] ''t'')
       [''n1:6379'', ''n2:6379'', ''n3:6379'']"
  by (simp add: ex_redlock_def NewRedLock_cases ex_confs_def ex_conf_def effective_timeout_def
      group_expiry_def Second_def Millisecond_def wrap64_def Seconds_int64_def)

lemma upt3: "[0..<3] = [0, Suc 0, Suc (Suc 0)]"
  by (simp add: upt_rec numeral_3_eq_3)

lemmas node_defs = NewRedisLock_def NewClient_def setLockOptions_def setClientArgs_def
  getRedisPool_def Let_def

lemmas lock_run_defs = Lock_def Lock_deferred_def watchDog_def tryLock_def SetNEX_def conn_Do_def
  next_fault_def drop_fault_def server_of_def getLockKey_def RedisLockKeyPrefix_def
  reply_result_def ToLower_OK next_since_def drop_since_def

lemma partly_held_attempts:
  "map_option (\<lambda>(rs, ls, w). (rs, ls = locks ex_redlock, faults w, since w, dogs w,
       servers w (''tcp'', ''n1:6379'') ''REDIS_LOCK_PREFIX_k'',
       servers w (''tcp'', ''n2:6379'') ''REDIS_LOCK_PREFIX_k''))
     (attempts (locks ex_redlock) ex_ctx [0..<3] partly_held) =
   Some ([(0, None, 0), (Suc 0, Some (ErrAcquired 0), 0), (Suc (Suc 0), Some (ErrAcquired 0), 0)],
         True, [], [], [], Some (''t'', 2), Some (''u'', 30))"
  by (simp add: upt3 ex_redlock_locks partly_held_def ex_world_def node_defs lock_run_defs)

lemma partly_held_Lock:
  "map_option (\<lambda>(e, r1, w1). (e, successLocks r1, locks r1 = locks ex_redlock,
       servers w1 (''tcp'', ''n1:6379'') ''REDIS_LOCK_PREFIX_k'',
       servers w1 (''tcp'', ''n2:6379'') ''REDIS_LOCK_PREFIX_k''))
     (RedLock_Lock ex_redlock ex_ctx partly_held) =
   Some (Some ErrRedLockFailed, [0], True, None, Some (''u'', 30))"
  by (simp add: RedLock_Lock_def ex_redlock_eval upt3 ex_redlock_locks partly_held_def ex_world_def
      node_defs lock_run_defs Millisecond_def Unlock_def Eval_def Unlock_deferred_def)

lemma guard_free_ex: "list_all guard_free (locks ex_redlock)"
  by (simp add: ex_redlock_locks guard_free_def node_defs)

theorem RedLock_Lock_quorum_witness:
  "list_all guard_free (locks ex_redlock) \<and>
   (\<exists>rs ls w1.
      attempts (locks ex_redlock) ex_ctx [0..<length (locks ex_redlock)] partly_held = Some (rs, ls, w1) \<and>
      rs = [(0, None, 0), (Suc 0, Some (ErrAcquired 0), 0), (Suc (Suc 0), Some (ErrAcquired 0), 0)] \<and>
      qualifying (singleNodesTimeout ex_redlock) rs = [0] \<and>
      RedLock_Lock ex_redlock ex_ctx partly_held =
        Some (Some ErrRedLockFailed, ex_redlock\<lparr>locks := ls, successLocks := [0]\<rparr>,
              fold (\<lambda>i w. snd (Unlock (ls ! i) ex_ctx w)) [0] w1))"
proof -
  from RedLock_Lock_quorum [of ex_redlock ex_ctx partly_held] guard_free_ex
  obtain rs ls w1 where
    a: "attempts (locks ex_redlock) ex_ctx [0..<length (locks ex_redlock)] partly_held = Some (rs, ls, w1)"
    by (auto simp: list_all_iff)
  with partly_held_attempts
  have rs: "rs = [(0, None, 0), (Suc 0, Some (ErrAcquired 0), 0), (Suc (Suc 0), Some (ErrAcquired 0), 0)]"
    by (simp add: ex_redlock_eval)
  then have q: "qualifying (singleNodesTimeout ex_redlock) rs = [0]"
    by (simp add: qualifying_def ex_redlock_eval Millisecond_def)
  from RedLock_Lock_quorum [of ex_redlock ex_ctx partly_held] a q
  have "RedLock_Lock ex_redlock ex_ctx partly_held =
        Some (Some ErrRedLockFailed, ex_redlock\<lparr>locks := ls, successLocks := [0]\<rparr>,
              fold (\<lambda>i w. snd (Unlock (ls ! i) ex_ctx w)) [0] w1)"
    by (simp add: ex_redlock_eval)
  with a rs q guard_free_ex show ?thesis by blast
qed

theorem success_list_only_grows_witness:
  "map_option (\<lambda>(e, r1, w1). (e, successLocks r1, releases (log w1),
       releases (log (snd (RedLock_UnLock r1 ex_ctx w1)))))
     (RedLock_Lock ex_redlock ex_ctx partly_held) =
   Some (Some ErrRedLockFailed, [0],
         [((''tcp'', ''n1:6379''),
           EVAL LuaCheckAndDeleteDistributionLock 1 [AStr ''REDIS_LOCK_PREFIX_k'', AStr ''t''])],
         [((''tcp'', ''n1:6379''),
           EVAL LuaCheckAndDeleteDistributionLock 1 [AStr ''REDIS_LOCK_PREFIX_k'', AStr ''t'']),
          ((''tcp'', ''n1:6379''),
           EVAL LuaCheckAndDeleteDistributionLock 1 [AStr ''REDIS_LOCK_PREFIX_k'', AStr ''t''])])"
proof -
  from partly_held_Lock obtain r1 w1 where
    a: "RedLock_Lock ex_redlock ex_ctx partly_held = Some (Some ErrRedLockFailed, r1, w1)"
    and s: "successLocks r1 = [0]" and l: "locks r1 = locks ex_redlock"
    by (cases "RedLock_Lock ex_redlock ex_ctx partly_held") auto
  have n: "node_release (locks ex_redlock ! 0) =
      ((''tcp'', ''n1:6379''),
       EVAL LuaCheckAndDeleteDistributionLock 1 [AStr ''REDIS_LOCK_PREFIX_k'', AStr ''t''])"
    by (simp add: node_release_def delete_call_def ex_redlock_locks NewRedisLock_fields
        getLockKey_def RedisLockKeyPrefix_def)
  have "releases (log partly_held) = []"
    by (simp add: partly_held_def ex_world_def)
  with success_list_only_grows [of ex_redlock ex_ctx partly_held] a s l n
  show ?thesis by simp
qed

end
